theory Spec2Isabelle
  imports Complex_Main "HOL-Library.Word" "HOL-Library.Monad_Syntax"
begin

section \<open>The pairwise interaction-list potential of pele\<close>

text \<open>
  A shallow embedding of \<^verbatim>\<open>source/simple_pairwise_ilist.h\<close>: the class template
  \<^verbatim>\<open>SimplePairwiseInteractionList<pairwise_interaction, distance_policy>\<close> with its
  constructor and its two member functions \<^verbatim>\<open>get_energy\<close> and
  \<^verbatim>\<open>get_energy_gradient\<close>.

  \<^item> A \<^verbatim>\<open>double\<close> is a value of a type \<open>'a\<close> that has the constant \<open>0\<close> and the
    operations \<open>+\<close>, \<open>-\<close> and \<open>*\<close> the code uses. The definitions assume no law of
    them, so a theorem stated for the sort \<open>{zero,plus,minus,times}\<close> holds for any
    arithmetic, rounding included; a theorem that needs exact arithmetic asks for an
    abelian group or a ring.
  \<^item> \<^verbatim>\<open>long int\<close> and \<^verbatim>\<open>size_t\<close> are 64-bit words (LP64); \<open>sint\<close> reads the
    value of a \<^verbatim>\<open>long int\<close> and \<open>unat\<close> that of a \<^verbatim>\<open>size_t\<close>.
    The conversion of an index of the list to an offset, \<^verbatim>\<open>size_t i1 = 3*_ilist[i]\<close>,
    and the sums \<^verbatim>\<open>i1+k\<close> are computed on 64 bits.
  \<^item> The sizes \<^verbatim>\<open>n\<close>, \<^verbatim>\<open>natoms\<close>, \<^verbatim>\<open>nlist\<close> and the loop counters are natural numbers:
    they count the elements of containers held in memory, and \<^verbatim>\<open>++i\<close>, \<^verbatim>\<open>i+=2\<close> do
    not wrap on them.
  \<^item> An element access outside its container and a failed \<^verbatim>\<open>assert\<close> are the
    result \<open>None\<close>.
  \<^item> The coordinate and the gradient buffer are two lists: the model is of a call whose
    two \<^verbatim>\<open>Array<double>\<close> arguments do not share their data. The function returns the
    gradient buffer it has written next to the energy.
\<close>

subsection \<open>Data\<close>

type_synonym long_int = "64 word"
type_synonym size_t = "64 word"

text \<open>
  The template parameter \<^verbatim>\<open>pairwise_interaction\<close>, whose class is not part of this
  header: \<^verbatim>\<open>energy(r2)\<close> returns the energy, \<^verbatim>\<open>energy_gradient(r2, &gij)\<close> returns
  the energy and stores \<^verbatim>\<open>gij\<close>. Both are taken as functions of \<^verbatim>\<open>r2\<close>.
\<close>

record 'a pairwise_interaction =
  energy :: "'a \<Rightarrow> 'a"
  energy_gradient :: "'a \<Rightarrow> 'a \<times> 'a"

text \<open>
  The members \<^verbatim>\<open>_interaction\<close>, \<^verbatim>\<open>_dist\<close> and \<^verbatim>\<open>_ilist\<close>. The distance policy is
  a value of a type \<open>'d\<close>, the template parameter \<^verbatim>\<open>distance_policy\<close>.
\<close>

record ('a, 'd) SimplePairwiseInteractionList =
  interaction :: "'a pairwise_interaction"
  dist_policy :: "'d"
  ilist :: "long_int list"

text \<open>
  The constructor. \<open>dist0\<close> is the optional pointer argument \<^verbatim>\<open>dist\<close> (\<open>None\<close> for \<^verbatim>\<open>NULL\<close>),
  \<open>new_dist\<close> the value that \<^verbatim>\<open>new distance_policy\<close> constructs; the list is copied.
\<close>

definition new_SimplePairwiseInteractionList ::
  "'a pairwise_interaction \<Rightarrow> long_int list \<Rightarrow> 'd option \<Rightarrow> 'd \<Rightarrow>
     ('a, 'd) SimplePairwiseInteractionList" where
  "new_SimplePairwiseInteractionList interaction0 ilist0 dist0 new_dist =
     \<lparr> interaction = interaction0,
       dist_policy = (case dist0 of None \<Rightarrow> new_dist | Some d \<Rightarrow> d),
       ilist = ilist0 \<rparr>"

subsection \<open>Element access\<close>

text \<open>\<^verbatim>\<open>a[i]\<close> read and \<^verbatim>\<open>a[i] = v\<close>, of \<^verbatim>\<open>std::vector\<close> and of \<^verbatim>\<open>pele::Array\<close>.\<close>

definition array_get :: "'b list \<Rightarrow> nat \<Rightarrow> 'b option" where
  "array_get a i = (if i < length a then Some (a ! i) else None)"

definition array_set :: "'b list \<Rightarrow> nat \<Rightarrow> 'b \<Rightarrow> 'b list option" where
  "array_set a i v = (if i < length a then Some (a[i := v]) else None)"

text \<open>
  \<^verbatim>\<open>3*_ilist[i]\<close>, a product of \<^verbatim>\<open>long int\<close>, converted to \<^verbatim>\<open>size_t\<close>: the
  conversion keeps the 64 bits.
\<close>

definition atom_offset :: "long_int \<Rightarrow> size_t" where
  "atom_offset a = 3 * a"

subsection \<open>The body of the loop over the pairs\<close>

text \<open>
  \<^verbatim>\<open>for(size_t k=0; k<3; ++k) dr[k] = x[i1+k] - x[i2+k];\<close> with its three rounds
  written out, in the order of the reads.
\<close>

definition separation ::
  "('a::{zero,plus,minus,times}) list \<Rightarrow> size_t \<Rightarrow> size_t \<Rightarrow> ('a \<times> 'a \<times> 'a) option" where
  "separation x i1 i2 = do {
     a0 \<leftarrow> array_get x (unat (i1 + 0));
     b0 \<leftarrow> array_get x (unat (i2 + 0));
     a1 \<leftarrow> array_get x (unat (i1 + 1));
     b1 \<leftarrow> array_get x (unat (i2 + 1));
     a2 \<leftarrow> array_get x (unat (i1 + 2));
     b2 \<leftarrow> array_get x (unat (i2 + 2));
     Some (a0 - b0, a1 - b1, a2 - b2)
   }"

text \<open>\<^verbatim>\<open>dr[0]*dr[0] + dr[1]*dr[1] + dr[2]*dr[2]\<close>\<close>

definition squared_norm :: "('a::{zero,plus,minus,times}) \<times> 'a \<times> 'a \<Rightarrow> 'a" where
  "squared_norm dr = (case dr of (d0, d1, d2) \<Rightarrow> d0 * d0 + d1 * d1 + d2 * d2)"

text \<open>\<^verbatim>\<open>grad[i] -= v\<close> and \<^verbatim>\<open>grad[i] += v\<close>\<close>

definition sub_at :: "('a::{zero,plus,minus,times}) list \<Rightarrow> nat \<Rightarrow> 'a \<Rightarrow> 'a list option" where
  "sub_at grad i v = do { g \<leftarrow> array_get grad i; array_set grad i (g - v) }"

definition add_at :: "('a::{zero,plus,minus,times}) list \<Rightarrow> nat \<Rightarrow> 'a \<Rightarrow> 'a list option" where
  "add_at grad i v = do { g \<leftarrow> array_get grad i; array_set grad i (g + v) }"

text \<open>
  The two loops \<^verbatim>\<open>grad[i1+k] -= gij * dr[k]\<close> and \<^verbatim>\<open>grad[i2+k] += gij * dr[k]\<close>,
  written out.
\<close>

definition scatter ::
  "('a::{zero,plus,minus,times}) list \<Rightarrow> size_t \<Rightarrow> size_t \<Rightarrow> 'a \<Rightarrow> 'a \<times> 'a \<times> 'a \<Rightarrow>
     'a list option" where
  "scatter grad i1 i2 gij dr = (case dr of (d0, d1, d2) \<Rightarrow> do {
     g1 \<leftarrow> sub_at grad (unat (i1 + 0)) (gij * d0);
     g2 \<leftarrow> sub_at g1 (unat (i1 + 1)) (gij * d1);
     g3 \<leftarrow> sub_at g2 (unat (i1 + 2)) (gij * d2);
     g4 \<leftarrow> add_at g3 (unat (i2 + 0)) (gij * d0);
     g5 \<leftarrow> add_at g4 (unat (i2 + 1)) (gij * d1);
     add_at g5 (unat (i2 + 2)) (gij * d2)
   })"

subsection \<open>get_energy\<close>

text \<open>
  \<^verbatim>\<open>for(size_t i=0; i<nlist; i+=2)\<close> of \<^verbatim>\<open>get_energy\<close>, from the counter \<open>i\<close> and
  the energy \<open>e\<close> summed so far.
\<close>

function energy_loop ::
  "('a::{zero,plus,minus,times}) pairwise_interaction \<Rightarrow> long_int list \<Rightarrow> 'a list \<Rightarrow>
     nat \<Rightarrow> 'a \<Rightarrow> 'a option" where
  "energy_loop law il x i e =
     (if i < length il then
        (case array_get il i of None \<Rightarrow> None | Some a \<Rightarrow>
        (case array_get il (i + 1) of None \<Rightarrow> None | Some b \<Rightarrow>
        (case separation x (atom_offset a) (atom_offset b) of None \<Rightarrow> None | Some dr \<Rightarrow>
           energy_loop law il x (i + 2) (e + energy law (squared_norm dr)))))
      else Some e)"
  by pat_completeness auto
termination
  by (relation "measure (\<lambda>(law, il, x, i, e). length il - i)") auto

declare energy_loop.simps [simp del]

definition get_energy ::
  "(('a::{zero,plus,minus,times}), 'd) SimplePairwiseInteractionList \<Rightarrow> 'a list \<Rightarrow> 'a option" where
  "get_energy ev x = energy_loop (interaction ev) (ilist ev) x 0 0"

subsection \<open>get_energy_gradient\<close>

text \<open>\<^verbatim>\<open>for(size_t i=0; i<n; ++i) grad[i] = 0.;\<close>\<close>

function zero_loop :: "nat \<Rightarrow> nat \<Rightarrow> ('a::{zero,plus,minus,times}) list \<Rightarrow> 'a list option" where
  "zero_loop n i grad =
     (if i < n then
        (case array_set grad i 0 of None \<Rightarrow> None | Some g \<Rightarrow> zero_loop n (i + 1) g)
      else Some grad)"
  by pat_completeness auto
termination
  by (relation "measure (\<lambda>(n, i, grad). n - i)") auto

declare zero_loop.simps [simp del]

text \<open>
  \<^verbatim>\<open>for(size_t i=0; i<nlist; ++i) assert(_ilist[i] < (long int)natoms);\<close> The
  comparison is the signed one of \<^verbatim>\<open>long int\<close>.
\<close>

function assert_loop :: "long_int list \<Rightarrow> nat \<Rightarrow> nat \<Rightarrow> unit option" where
  "assert_loop il natoms i =
     (if i < length il then
        (case array_get il i of None \<Rightarrow> None | Some a \<Rightarrow>
           if sint a < sint (word_of_nat natoms :: long_int)
           then assert_loop il natoms (i + 1) else None)
      else Some ())"
  by pat_completeness auto
termination
  by (relation "measure (\<lambda>(il, natoms, i). length il - i)") auto

declare assert_loop.simps [simp del]

text \<open>
  \<^verbatim>\<open>for(size_t i=0; i<nlist; i+=2)\<close> of \<^verbatim>\<open>get_energy_gradient\<close>, from the counter,
  the energy and the gradient buffer so far.
\<close>

function gradient_loop ::
  "('a::{zero,plus,minus,times}) pairwise_interaction \<Rightarrow> long_int list \<Rightarrow> 'a list \<Rightarrow>
     nat \<Rightarrow> 'a \<Rightarrow> 'a list \<Rightarrow> ('a \<times> 'a list) option" where
  "gradient_loop law il x i e grad =
     (if i < length il then
        (case array_get il i of None \<Rightarrow> None | Some a \<Rightarrow>
        (case array_get il (i + 1) of None \<Rightarrow> None | Some b \<Rightarrow>
        (case separation x (atom_offset a) (atom_offset b) of None \<Rightarrow> None | Some dr \<Rightarrow>
        (case energy_gradient law (squared_norm dr) of (e_pair, gij) \<Rightarrow>
        (case scatter grad (atom_offset a) (atom_offset b) gij dr of None \<Rightarrow> None | Some g \<Rightarrow>
           gradient_loop law il x (i + 2) (e + e_pair) g)))))
      else Some (e, grad))"
  by pat_completeness auto
termination
  by (relation "measure (\<lambda>(law, il, x, i, e, grad). length il - i)") auto

declare gradient_loop.simps [simp del]

text \<open>
  The member function. \<open>ndebug\<close> tells whether \<^verbatim>\<open>NDEBUG\<close> is defined: then both
  \<^verbatim>\<open>assert\<close>s are compiled out.
\<close>

definition get_energy_gradient ::
  "bool \<Rightarrow> (('a::{zero,plus,minus,times}), 'd) SimplePairwiseInteractionList \<Rightarrow>
     'a list \<Rightarrow> 'a list \<Rightarrow> ('a \<times> 'a list) option" where
  "get_energy_gradient ndebug ev x grad =
     (let n = length x; natoms = length x div 3 in
      if \<not> ndebug \<and> length x \<noteq> length grad then None
      else
        (case zero_loop n 0 grad of None \<Rightarrow> None | Some g0 \<Rightarrow>
        (case (if ndebug then Some () else assert_loop (ilist ev) natoms 0) of
           None \<Rightarrow> None
         | Some u \<Rightarrow> gradient_loop (interaction ev) (ilist ev) x 0 0 g0)))"

section \<open>The loops as recursions over the list\<close>

text \<open>
  The two loops over the pairs read the list two elements at a time. The same runs as
  recursions over the part of the list that is still to be read; a last element without a
  partner is the read of \<^verbatim>\<open>_ilist[i+1]\<close> past the end. \<open>energy_loop_pairs\<close> and
  \<open>gradient_loop_pairs\<close> below prove that they are the loops.
\<close>

fun energy_pairs ::
  "('a::{zero,plus,minus,times}) pairwise_interaction \<Rightarrow> 'a list \<Rightarrow> long_int list \<Rightarrow> 'a \<Rightarrow>
     'a option" where
  "energy_pairs law x [] e = Some e"
| "energy_pairs law x [a] e = None"
| "energy_pairs law x (a # b # rest) e =
     (case separation x (atom_offset a) (atom_offset b) of None \<Rightarrow> None | Some dr \<Rightarrow>
        energy_pairs law x rest (e + energy law (squared_norm dr)))"

fun gradient_pairs ::
  "('a::{zero,plus,minus,times}) pairwise_interaction \<Rightarrow> 'a list \<Rightarrow> long_int list \<Rightarrow> 'a \<Rightarrow>
     'a list \<Rightarrow> ('a \<times> 'a list) option" where
  "gradient_pairs law x [] e grad = Some (e, grad)"
| "gradient_pairs law x [a] e grad = None"
| "gradient_pairs law x (a # b # rest) e grad =
     (case separation x (atom_offset a) (atom_offset b) of None \<Rightarrow> None | Some dr \<Rightarrow>
     (case scatter grad (atom_offset a) (atom_offset b)
             (snd (energy_gradient law (squared_norm dr))) dr of None \<Rightarrow> None | Some g \<Rightarrow>
        gradient_pairs law x rest (e + fst (energy_gradient law (squared_norm dr))) g))"

text \<open>The pairs \<^verbatim>\<open>(_ilist[0], _ilist[1])\<close>, \<^verbatim>\<open>(_ilist[2], _ilist[3])\<close>, ... of a list.\<close>

fun pairs :: "'b list \<Rightarrow> ('b \<times> 'b) list" where
  "pairs (a # b # rest) = (a, b) # pairs rest"
| "pairs [a] = []"
| "pairs [] = []"

text \<open>
  The energy of one pair taken alone: the law's \<^verbatim>\<open>energy\<close> at the squared norm of the
  separation of the pair, \<open>None\<close> where a read of a coordinate is out of bounds.
\<close>

definition pair_energy ::
  "('a::{zero,plus,minus,times}) pairwise_interaction \<Rightarrow> 'a list \<Rightarrow> long_int \<times> long_int \<Rightarrow>
     'a option" where
  "pair_energy law x ab = (case ab of (a, b) \<Rightarrow>
     map_option (\<lambda>dr. energy law (squared_norm dr))
       (separation x (atom_offset a) (atom_offset b)))"

text \<open>The term that a write to slot \<open>p\<close> adds to the entry \<open>j\<close> of the buffer.\<close>

definition delta :: "nat \<Rightarrow> nat \<Rightarrow> ('a::zero) \<Rightarrow> 'a" where
  "delta p j c = (if p = j then c else 0)"

text \<open>\<^verbatim>\<open>dr[k]\<close> for \<open>k\<close> = 0, 1, 2.\<close>

definition dr_at :: "'a \<times> 'a \<times> 'a \<Rightarrow> nat \<Rightarrow> 'a" where
  "dr_at dr k = (case dr of (d0, d1, d2) \<Rightarrow> if k = 0 then d0 else if k = 1 then d1 else d2)"

text \<open>
  For a pair \<open>(a, b)\<close> of indices that are in range: the separation \<open>pos a - pos b\<close>, where
  particle \<open>a\<close> has its coordinates at \<open>3a\<close>, \<open>3a + 1\<close>, \<open>3a + 2\<close>, and the coefficient
  \<^verbatim>\<open>gij\<close> that the law returns for it. \<open>separation_valid_eq\<close> below proves that \<open>pair_dr\<close>
  is what \<open>separation\<close> reads for such a pair.
\<close>

definition pair_dr ::
  "('a::{zero,plus,minus,times}) list \<Rightarrow> long_int \<times> long_int \<Rightarrow> 'a \<times> 'a \<times> 'a" where
  "pair_dr x ab = (case ab of (a, b) \<Rightarrow>
     (x ! (3 * unat a) - x ! (3 * unat b),
      x ! (3 * unat a + 1) - x ! (3 * unat b + 1),
      x ! (3 * unat a + 2) - x ! (3 * unat b + 2)))"

definition pair_gij ::
  "('a::{zero,plus,minus,times}) pairwise_interaction \<Rightarrow> 'a list \<Rightarrow> long_int \<times> long_int \<Rightarrow> 'a" where
  "pair_gij law x ab = snd (energy_gradient law (squared_norm (pair_dr x ab)))"

text \<open>
  What a pair changes in the entry of axis \<open>k\<close> of particle \<open>p\<close>: \<open>contribution\<close> is the
  term it adds in exact arithmetic, \<open>- gij * dr[k]\<close> where \<open>p\<close> is the first index of the
  pair and \<open>gij * dr[k]\<close> where it is the second; \<open>accumulate\<close> is the same as two updates
  of the value \<open>v\<close> of the entry, \<^verbatim>\<open>-=\<close> then \<^verbatim>\<open>+=\<close>, with no law of the arithmetic
  assumed.
\<close>

definition contribution ::
  "('a::{uminus,zero,plus,minus,times}) pairwise_interaction \<Rightarrow> 'a list \<Rightarrow> nat \<Rightarrow> nat \<Rightarrow>
     long_int \<times> long_int \<Rightarrow> 'a" where
  "contribution law x p k ab =
     (if unat (fst ab) = p then - (pair_gij law x ab * dr_at (pair_dr x ab) k) else 0) +
     (if unat (snd ab) = p then pair_gij law x ab * dr_at (pair_dr x ab) k else 0)"

definition accumulate ::
  "('a::{zero,plus,minus,times}) pairwise_interaction \<Rightarrow> 'a list \<Rightarrow> nat \<Rightarrow> nat \<Rightarrow> 'a \<Rightarrow>
     long_int \<times> long_int \<Rightarrow> 'a" where
  "accumulate law x p k v ab =
     (let c = pair_gij law x ab * dr_at (pair_dr x ab) k;
          v1 = (if unat (fst ab) = p then v - c else v)
      in if unat (snd ab) = p then v1 + c else v1)"

section \<open>Lemmas\<close>

subsection \<open>The body of the loop\<close>

lemma separation_eq:
  "separation x i1 i2 =
     (if unat i1 < length x \<and> unat i2 < length x \<and> unat (i1 + 1) < length x \<and>
         unat (i2 + 1) < length x \<and> unat (i1 + 2) < length x \<and> unat (i2 + 2) < length x
      then Some (x ! unat i1 - x ! unat i2, x ! unat (i1 + 1) - x ! unat (i2 + 1),
                 x ! unat (i1 + 2) - x ! unat (i2 + 2))
      else None)"
  by (simp add: separation_def array_get_def)

lemma sub_at_eq: "sub_at g p c = (if p < length g then Some (g[p := g ! p - c]) else None)"
  by (simp add: sub_at_def array_get_def array_set_def)

lemma add_at_eq: "add_at g p c = (if p < length g then Some (g[p := g ! p + c]) else None)"
  by (simp add: add_at_def array_get_def array_set_def)

lemma scatter_Some:
  "unat i1 < length g \<Longrightarrow> unat (i1 + 1) < length g \<Longrightarrow> unat (i1 + 2) < length g \<Longrightarrow>
   unat i2 < length g \<Longrightarrow> unat (i2 + 1) < length g \<Longrightarrow> unat (i2 + 2) < length g \<Longrightarrow>
   \<exists>g'. scatter g i1 i2 gij (d0, d1, d2) = Some g'"
  by (simp add: scatter_def sub_at_eq add_at_eq)

lemma scatter_length: "scatter g i1 i2 gij dr = Some g' \<Longrightarrow> length g' = length g"
  by (cases dr) (auto simp add: scatter_def sub_at_eq add_at_eq bind_eq_Some_conv split: if_splits)

lemma scatter_bounds:
  "scatter g i1 i2 gij dr = Some g' \<Longrightarrow>
   unat i1 < length g \<and> unat (i1 + 1) < length g \<and> unat (i1 + 2) < length g \<and>
   unat i2 < length g \<and> unat (i2 + 1) < length g \<and> unat (i2 + 2) < length g"
  by (cases dr) (auto simp add: scatter_def sub_at_eq add_at_eq bind_eq_Some_conv split: if_splits)

lemma sub_at_nth:
  fixes g :: "('a::{ab_group_add,times}) list"
  shows "sub_at g p c = Some g' \<Longrightarrow> g' ! j = g ! j + delta p j (- c)"
  by (auto simp add: sub_at_eq delta_def split: if_splits)

lemma add_at_nth:
  fixes g :: "('a::{ab_group_add,times}) list"
  shows "add_at g p c = Some g' \<Longrightarrow> g' ! j = g ! j + delta p j c"
  by (auto simp add: add_at_eq delta_def split: if_splits)

lemma scatter_steps:
  assumes "scatter g i1 i2 gij (d0, d1, d2) = Some g'"
  obtains g1 g2 g3 g4 g5 where
    "sub_at g (unat i1) (gij * d0) = Some g1"
    "sub_at g1 (unat (i1 + 1)) (gij * d1) = Some g2"
    "sub_at g2 (unat (i1 + 2)) (gij * d2) = Some g3"
    "add_at g3 (unat i2) (gij * d0) = Some g4"
    "add_at g4 (unat (i2 + 1)) (gij * d1) = Some g5"
    "add_at g5 (unat (i2 + 2)) (gij * d2) = Some g'"
  using assms by (auto simp add: scatter_def bind_eq_Some_conv)

lemma scatter_nth:
  fixes g :: "('a::{ab_group_add,times}) list"
  assumes "scatter g i1 i2 gij (d0, d1, d2) = Some g'"
  shows "g' ! j = g ! j + delta (unat i1) j (- (gij * d0)) + delta (unat (i1 + 1)) j (- (gij * d1))
           + delta (unat (i1 + 2)) j (- (gij * d2)) + delta (unat i2) j (gij * d0)
           + delta (unat (i2 + 1)) j (gij * d1) + delta (unat (i2 + 2)) j (gij * d2)"
proof -
  from assms obtain g1 g2 g3 g4 g5 where
    s: "sub_at g (unat i1) (gij * d0) = Some g1"
    "sub_at g1 (unat (i1 + 1)) (gij * d1) = Some g2"
    "sub_at g2 (unat (i1 + 2)) (gij * d2) = Some g3"
    "add_at g3 (unat i2) (gij * d0) = Some g4"
    "add_at g4 (unat (i2 + 1)) (gij * d1) = Some g5"
    "add_at g5 (unat (i2 + 2)) (gij * d2) = Some g'"
    by (rule scatter_steps)
  show ?thesis
    by (simp only: add_at_nth [OF s(6)] add_at_nth [OF s(5)] add_at_nth [OF s(4)]
        sub_at_nth [OF s(3)] sub_at_nth [OF s(2)] sub_at_nth [OF s(1)])
qed

subsection \<open>The loops\<close>

lemma drop_two:
  "i + 1 < length il \<Longrightarrow> drop i il = il ! i # il ! (i + 1) # drop (i + 2) il"
  by (simp add: Cons_nth_drop_Suc)

lemma drop_last_one: "i < length il \<Longrightarrow> \<not> i + 1 < length il \<Longrightarrow> drop i il = [il ! i]"
  by (metis Cons_nth_drop_Suc Suc_eq_plus1 drop_all not_less)

lemma energy_loop_pairs: "energy_loop law il x i e = energy_pairs law x (drop i il) e"
proof (induction law il x i e rule: energy_loop.induct)
  case (1 law il x i e)
  show ?case
  proof (cases "i < length il")
    case False
    then show ?thesis by (simp add: energy_loop.simps [of law il x i e])
  next
    case True
    show ?thesis
    proof (cases "i + 1 < length il")
      case False
      with True show ?thesis
        by (simp add: energy_loop.simps [of law il x i e] array_get_def drop_last_one)
    next
      case in2: True
      show ?thesis
      proof (cases "separation x (atom_offset (il ! i)) (atom_offset (il ! (i + 1)))")
        case None
        with True in2 show ?thesis
          by (simp add: energy_loop.simps [of law il x i e] array_get_def drop_two)
      next
        case (Some dr)
        have "energy_loop law il x (i + 2) (e + energy law (squared_norm dr)) =
              energy_pairs law x (drop (i + 2) il) (e + energy law (squared_norm dr))"
          using "1.IH" [of "il ! i" "il ! (i + 1)" dr] True in2 Some
          by (simp add: array_get_def)
        with True in2 Some show ?thesis
          by (simp add: energy_loop.simps [of law il x i e] array_get_def drop_two)
      qed
    qed
  qed
qed

lemma gradient_loop_pairs:
  "gradient_loop law il x i e grad = gradient_pairs law x (drop i il) e grad"
proof (induction law il x i e grad rule: gradient_loop.induct)
  case (1 law il x i e grad)
  show ?case
  proof (cases "i < length il")
    case False
    then show ?thesis by (simp add: gradient_loop.simps [of law il x i e grad])
  next
    case True
    show ?thesis
    proof (cases "i + 1 < length il")
      case False
      with True show ?thesis
        by (simp add: gradient_loop.simps [of law il x i e grad] array_get_def drop_last_one)
    next
      case in2: True
      show ?thesis
      proof (cases "separation x (atom_offset (il ! i)) (atom_offset (il ! (i + 1)))")
        case None
        with True in2 show ?thesis
          by (simp add: gradient_loop.simps [of law il x i e grad] array_get_def drop_two)
      next
        case (Some dr)
        obtain ep gij where eg: "energy_gradient law (squared_norm dr) = (ep, gij)"
          by (cases "energy_gradient law (squared_norm dr)")
        show ?thesis
        proof (cases "scatter grad (atom_offset (il ! i)) (atom_offset (il ! (i + 1))) gij dr")
          case None
          with True in2 Some eg show ?thesis
            by (simp add: gradient_loop.simps [of law il x i e grad] array_get_def drop_two)
        next
          case sc: (Some g)
          have "gradient_loop law il x (i + 2) (e + ep) g =
                gradient_pairs law x (drop (i + 2) il) (e + ep) g"
            using "1.IH" [of "il ! i" "il ! (i + 1)" dr ep gij g] True in2 Some eg sc
            by (simp add: array_get_def)
          with True in2 Some eg sc show ?thesis
            by (simp add: gradient_loop.simps [of law il x i e grad] array_get_def drop_two)
        qed
      qed
    qed
  qed
qed

lemma zero_loop_Some:
  "n \<le> length grad \<Longrightarrow> i \<le> n \<Longrightarrow>
   zero_loop n i grad = Some (take i grad @ replicate (n - i) 0 @ drop n grad)"
proof (induction n i grad rule: zero_loop.induct)
  case (1 n i grad)
  show ?case
  proof (cases "i < n")
    case False
    with "1.prems" show ?thesis by (subst zero_loop.simps) simp
  next
    case True
    have il: "i < length grad" using True "1.prems" by simp
    have "zero_loop n (i + 1) (grad[i := 0]) =
          Some (take (i + 1) (grad[i := 0]) @ replicate (n - (i + 1)) 0 @ drop n (grad[i := 0]))"
      using "1.IH" [of "grad[i := 0]"] True il "1.prems" by (simp add: array_set_def)
    moreover have "take (i + 1) (grad[i := 0]) = take i grad @ [0]"
      using il by (simp add: take_Suc_conv_app_nth)
    moreover have "drop n (grad[i := 0]) = drop n grad"
      using True by simp
    moreover have "replicate (n - i) (0::'a) = 0 # replicate (n - (i + 1)) 0"
      using True by (metis Suc_diff_Suc Suc_eq_plus1 replicate_Suc)
    ultimately show ?thesis
      using True il by (simp add: zero_loop.simps [of n i grad] array_set_def)
  qed
qed

lemma zero_loop_None:
  "length grad < n \<Longrightarrow> i \<le> length grad \<Longrightarrow> zero_loop n i grad = None"
proof (induction n i grad rule: zero_loop.induct)
  case (1 n i grad)
  show ?case
  proof (cases "i < length grad")
    case False
    with "1.prems" show ?thesis by (subst zero_loop.simps) (simp add: array_set_def)
  next
    case True
    have "zero_loop n (i + 1) (grad[i := 0]) = None"
      using "1.IH" [of "grad[i := 0]"] True "1.prems" by (simp add: array_set_def)
    then show ?thesis
      using True "1.prems" by (simp add: zero_loop.simps [of n i grad] array_set_def)
  qed
qed

lemma assert_loop_iff:
  "assert_loop il natoms i =
     (if \<forall>a \<in> set (drop i il). sint a < sint (word_of_nat natoms :: long_int)
      then Some () else None)"
proof (induction il natoms i rule: assert_loop.induct)
  case (1 il natoms i)
  show ?case
  proof (cases "i < length il")
    case False
    then show ?thesis by (simp add: assert_loop.simps [of il natoms i])
  next
    case True
    have d: "drop i il = il ! i # drop (i + 1) il"
      using True by (simp add: Cons_nth_drop_Suc)
    show ?thesis
    proof (cases "sint (il ! i) < sint (word_of_nat natoms :: long_int)")
      case False
      with True d show ?thesis
        by (simp add: assert_loop.simps [of il natoms i] array_get_def)
    next
      case ok: True
      have "assert_loop il natoms (i + 1) =
        (if \<forall>a \<in> set (drop (i + 1) il). sint a < sint (word_of_nat natoms :: long_int)
         then Some () else None)"
        using "1.IH" [of "il ! i"] True ok by (simp add: array_get_def)
      with True ok d show ?thesis
        by (simp add: assert_loop.simps [of il natoms i] array_get_def)
    qed
  qed
qed

subsection \<open>Indices and offsets\<close>

lemma unat_nonneg_sint:
  fixes a :: long_int
  assumes "0 \<le> sint a"
  shows "int (unat a) = sint a"
proof -
  have s: "sint a = signed_take_bit 63 (uint a)"
    by (simp add: sint_uint)
  have "uint a < 2 ^ 63"
  proof (rule ccontr)
    assume "\<not> uint a < 2 ^ 63"
    then have "2 ^ 63 \<le> uint a" by simp
    then have "signed_take_bit 63 (uint a) \<le> uint a - 2 ^ Suc 63"
      by (rule signed_take_bit_int_less_eq)
    moreover have "uint a < 2 ^ 64"
      using uint_bounded [of a] by simp
    ultimately show False using assms s by simp
  qed
  moreover have "- (2 ^ 63) \<le> uint a"
    by (rule order_trans [of _ 0]) simp_all
  ultimately have "signed_take_bit 63 (uint a) = uint a"
    by (intro signed_take_bit_int_eq_self)
  with s show ?thesis by simp
qed

lemma offset_le:
  fixes a :: long_int
  shows "unat (atom_offset a) \<le> 3 * unat a"
    and "unat (atom_offset a + 1) \<le> 3 * unat a + 1"
    and "unat (atom_offset a + 2) \<le> 3 * unat a + 2"
  by (simp_all add: atom_offset_def unat_word_ariths mod_mult_right_eq mod_add_left_eq)

lemma offset_eq:
  fixes a :: long_int
  assumes "3 * unat a + 2 < 2 ^ 64"
  shows "unat (atom_offset a) = 3 * unat a"
    and "unat (atom_offset a + 1) = 3 * unat a + 1"
    and "unat (atom_offset a + 2) = 3 * unat a + 2"
  using assms
  by (simp_all add: atom_offset_def unat_word_ariths mod_mult_right_eq mod_add_left_eq)

lemma valid_offsets:
  fixes a :: long_int
  assumes "0 \<le> sint a" "sint a < int N"
  shows "unat a < N"
    and "unat (atom_offset a) < 3 * N"
    and "unat (atom_offset a + 1) < 3 * N"
    and "unat (atom_offset a + 2) < 3 * N"
proof -
  show u: "unat a < N"
    using assms unat_nonneg_sint [of a] by linarith
  show "unat (atom_offset a) < 3 * N"
    using offset_le(1) [of a] u by linarith
  show "unat (atom_offset a + 1) < 3 * N"
    using offset_le(2) [of a] u by linarith
  show "unat (atom_offset a + 2) < 3 * N"
    using offset_le(3) [of a] u by linarith
qed

lemma cast_natoms:
  assumes "N < 2 ^ 63"
  shows "sint (word_of_nat N :: long_int) = int N"
proof -
  have "N < 2 ^ 64"
    using assms by simp
  then have "take_bit 64 N = N"
    by (intro take_bit_nat_eq_self)
  then have "sint (word_of_nat N :: long_int) = signed_take_bit 63 (int N)"
    by (simp add: sint_uint unsigned_of_nat)
  also have "\<dots> = int N"
    using assms by (intro signed_take_bit_int_eq_self) simp_all
  finally show ?thesis .
qed

subsection \<open>The two operations\<close>

lemma get_energy_pairs:
  "get_energy ev x = energy_pairs (interaction ev) x (ilist ev) 0"
  by (simp add: get_energy_def energy_loop_pairs)

lemma get_energy_gradient_release:
  "get_energy_gradient True ev x grad =
     (if length x \<le> length grad
      then gradient_pairs (interaction ev) x (ilist ev) 0
             (replicate (length x) 0 @ drop (length x) grad)
      else None)"
  by (simp add: get_energy_gradient_def gradient_loop_pairs zero_loop_Some zero_loop_None)

lemma get_energy_gradient_debug:
  "get_energy_gradient False ev x grad =
     (if length x = length grad \<and>
         (\<forall>a \<in> set (ilist ev). sint a < sint (word_of_nat (length x div 3) :: long_int))
      then gradient_pairs (interaction ev) x (ilist ev) 0 (replicate (length x) 0)
      else None)"
  by (simp add: get_energy_gradient_def gradient_loop_pairs zero_loop_Some assert_loop_iff)

lemma get_energy_gradient_matching:
  "length grad = length x \<Longrightarrow>
   get_energy_gradient ndebug ev x grad =
     (if ndebug \<or> (\<forall>a \<in> set (ilist ev). sint a < sint (word_of_nat (length x div 3) :: long_int))
      then gradient_pairs (interaction ev) x (ilist ev) 0 (replicate (length x) 0)
      else None)"
  by (cases ndebug) (simp_all add: get_energy_gradient_release get_energy_gradient_debug)

lemma gradient_pairs_length:
  "gradient_pairs law x il e g = Some (e', g') \<Longrightarrow> length g' = length g"
proof (induction law x il e g rule: gradient_pairs.induct)
  case (3 law x a b rest e grad)
  then show ?case
    by (auto split: option.splits dest: scatter_length)
qed simp_all

lemma energy_pairs_odd: "odd (length il) \<Longrightarrow> energy_pairs law x il e = None"
  by (induction law x il e rule: energy_pairs.induct) (auto split: option.splits)

lemma gradient_pairs_odd: "odd (length il) \<Longrightarrow> gradient_pairs law x il e g = None"
  by (induction law x il e g rule: gradient_pairs.induct) (auto split: option.splits)

lemma gradient_pairs_energy:
  "\<forall>r2. energy law r2 = fst (energy_gradient law r2) \<Longrightarrow>
   gradient_pairs law x il e g = Some (e', g') \<Longrightarrow> energy_pairs law x il e = Some e'"
proof (induction law x il e g rule: gradient_pairs.induct)
  case (3 law x a b rest e grad)
  then show ?case
    by (auto split: option.splits)
qed simp_all

lemma energy_pairs_gradient:
  "\<forall>r2. energy law r2 = fst (energy_gradient law r2) \<Longrightarrow> length x \<le> length g \<Longrightarrow>
   energy_pairs law x il e = Some e' \<Longrightarrow> \<exists>g'. gradient_pairs law x il e g = Some (e', g')"
proof (induction law x il e g rule: gradient_pairs.induct)
  case (3 law x a b rest e grad)
  from "3.prems"(3) obtain d0 d1 d2 where
    sep: "separation x (atom_offset a) (atom_offset b) = Some (d0, d1, d2)"
    by (auto split: option.splits)
  let ?dr = "(d0, d1, d2)"
  let ?gij = "snd (energy_gradient law (squared_norm ?dr))"
  have "\<exists>g'. scatter grad (atom_offset a) (atom_offset b) ?gij ?dr = Some g'"
    using sep "3.prems"(2)
    by (intro scatter_Some) (auto simp add: separation_eq split: if_splits)
  then obtain g1 where sc: "scatter grad (atom_offset a) (atom_offset b) ?gij ?dr = Some g1"
    by blast
  have "length x \<le> length g1"
    using scatter_length [OF sc] "3.prems"(2) by simp
  moreover have "energy_pairs law x rest (e + fst (energy_gradient law (squared_norm ?dr))) = Some e'"
    using "3.prems"(1,3) sep by simp
  ultimately have "\<exists>g'. gradient_pairs law x rest
      (e + fst (energy_gradient law (squared_norm ?dr))) g1 = Some (e', g')"
    using "3.IH" [OF sep sc "3.prems"(1)] by blast
  then show ?case
    using sep sc by simp
qed simp_all

lemma new_interaction [simp]:
  "interaction (new_SimplePairwiseInteractionList law il dist0 new_dist) = law"
  by (simp add: new_SimplePairwiseInteractionList_def)

lemma new_ilist [simp]:
  "ilist (new_SimplePairwiseInteractionList law il dist0 new_dist) = il"
  by (simp add: new_SimplePairwiseInteractionList_def)

lemma get_energy_members:
  "interaction ev = interaction ev' \<Longrightarrow> ilist ev = ilist ev' \<Longrightarrow>
   get_energy ev x = get_energy ev' x"
  by (simp add: get_energy_def)

lemma get_energy_gradient_members:
  "interaction ev = interaction ev' \<Longrightarrow> ilist ev = ilist ev' \<Longrightarrow>
   get_energy_gradient ndebug ev x grad = get_energy_gradient ndebug ev' x grad"
  by (simp add: get_energy_gradient_def split: option.splits)

subsection \<open>Sums over the pairs and valid indices\<close>

lemma length_pairs: "length (pairs il) = length il div 2"
  by (induction il rule: pairs.induct) simp_all

lemma energy_pairs_fold:
  "even (length il) \<Longrightarrow>
   energy_pairs law x il e =
     map_option (foldl (+) e) (those (map (pair_energy law x) (pairs il)))"
proof (induction law x il e rule: energy_pairs.induct)
  case (3 law x a b rest e)
  show ?case
  proof (cases "separation x (atom_offset a) (atom_offset b)")
    case None
    then show ?thesis by (simp add: pair_energy_def)
  next
    case (Some dr)
    have "energy_pairs law x rest (e + energy law (squared_norm dr)) =
          map_option (foldl (+) (e + energy law (squared_norm dr)))
            (those (map (pair_energy law x) (pairs rest)))"
      using "3.IH" [OF Some] "3.prems" by simp
    moreover have "pair_energy law x (a, b) = Some (energy law (squared_norm dr))"
      using Some by (simp add: pair_energy_def)
    ultimately show ?thesis
      using Some by (cases "those (map (pair_energy law x) (pairs rest))") simp_all
  qed
qed simp_all

lemma separation_valid:
  fixes a b :: long_int
  assumes "0 \<le> sint a" "sint a < int N" "0 \<le> sint b" "sint b < int N" "length x = 3 * N"
  shows "\<exists>dr. separation x (atom_offset a) (atom_offset b) = Some dr"
  using valid_offsets [OF assms(1,2)] valid_offsets [OF assms(3,4)] assms(5)
  by (simp add: separation_eq)

lemma scatter_valid:
  fixes a b :: long_int
  assumes "0 \<le> sint a" "sint a < int N" "0 \<le> sint b" "sint b < int N" "length g = 3 * N"
  shows "\<exists>g'. scatter g (atom_offset a) (atom_offset b) gij dr = Some g'"
  using valid_offsets [OF assms(1,2)] valid_offsets [OF assms(3,4)] assms(5)
  by (cases dr) (simp add: scatter_Some)

lemma energy_pairs_valid:
  "even (length il) \<Longrightarrow> \<forall>a \<in> set il. 0 \<le> sint a \<and> sint a < int N \<Longrightarrow>
   length x = 3 * N \<Longrightarrow> \<exists>e'. energy_pairs law x il e = Some e'"
proof (induction law x il e rule: energy_pairs.induct)
  case (3 law x a b rest e)
  obtain dr where sep: "separation x (atom_offset a) (atom_offset b) = Some dr"
    using separation_valid [of a N b x] "3.prems" by auto
  show ?case
    using "3.IH" [OF sep] "3.prems" sep by simp
qed simp_all

lemma gradient_pairs_valid:
  "even (length il) \<Longrightarrow> \<forall>a \<in> set il. 0 \<le> sint a \<and> sint a < int N \<Longrightarrow>
   length x = 3 * N \<Longrightarrow> length g = 3 * N \<Longrightarrow>
   \<exists>e' g'. gradient_pairs law x il e g = Some (e', g')"
proof (induction law x il e g rule: gradient_pairs.induct)
  case (3 law x a b rest e grad)
  obtain dr where sep: "separation x (atom_offset a) (atom_offset b) = Some dr"
    using separation_valid [of a N b x] "3.prems" by auto
  obtain g1 where sc: "scatter grad (atom_offset a) (atom_offset b)
      (snd (energy_gradient law (squared_norm dr))) dr = Some g1"
    using scatter_valid [of a N b grad "snd (energy_gradient law (squared_norm dr))" dr]
      "3.prems" by auto
  have "length g1 = 3 * N"
    using scatter_length [OF sc] "3.prems" by simp
  then show ?case
    using "3.IH" [OF sep sc] "3.prems" sep sc by simp
qed simp_all

lemma assert_valid:
  fixes il :: "long_int list"
  assumes "\<forall>a \<in> set il. 0 \<le> sint a \<and> sint a < int N" "N < 2 ^ 63"
  shows "\<forall>a \<in> set il. sint a < sint (word_of_nat ((3 * N) div 3) :: long_int)"
  using assms by (simp add: cast_natoms)

subsection \<open>Contributions to a slot of the gradient\<close>

lemma set_pairs: "(a, b) \<in> set (pairs il) \<Longrightarrow> a \<in> set il \<and> b \<in> set il"
  by (induction il rule: pairs.induct) auto

lemma slot_eq_iff:
  fixes u p k k' :: nat
  shows "k' < 3 \<Longrightarrow> k < 3 \<Longrightarrow> (3 * u + k' = 3 * p + k) = (u = p \<and> k' = k)"
  by arith

lemma separation_valid_eq:
  fixes a b :: long_int
  assumes "0 \<le> sint a" "sint a < int N" "0 \<le> sint b" "sint b < int N"
    and "length x = 3 * N" and "3 * N \<le> 2 ^ 64"
  shows "separation x (atom_offset a) (atom_offset b) = Some (pair_dr x (a, b))"
proof -
  have a: "3 * unat a + 2 < 2 ^ 64"
    using valid_offsets(1) [OF assms(1,2)] assms(6) by linarith
  have b: "3 * unat b + 2 < 2 ^ 64"
    using valid_offsets(1) [OF assms(3,4)] assms(6) by linarith
  show ?thesis
    using valid_offsets [OF assms(1,2)] valid_offsets [OF assms(3,4)] assms(5)
    by (simp add: separation_eq pair_dr_def offset_eq [OF a] offset_eq [OF b])
qed

lemma delta_slot:
  fixes u p k :: nat
  assumes "k < 3"
  shows "delta (3 * u) (3 * p + k) c = (if u = p \<and> k = 0 then c else 0)"
    and "delta (3 * u + 1) (3 * p + k) c = (if u = p \<and> k = 1 then c else 0)"
    and "delta (3 * u + 2) (3 * p + k) c = (if u = p \<and> k = 2 then c else 0)"
  using slot_eq_iff [of 0 k u p] slot_eq_iff [of 1 k u p] slot_eq_iff [of 2 k u p] assms
  by (simp_all add: delta_def)

lemma scatter_valid_nth:
  fixes a b :: long_int and g :: "('a::{ab_group_add,times}) list"
  assumes "0 \<le> sint a" "sint a < int N" "0 \<le> sint b" "sint b < int N"
    and "3 * N \<le> 2 ^ 64" and "k < 3"
    and "scatter g (atom_offset a) (atom_offset b) gij dr = Some g'"
  shows "g' ! (3 * p + k) = g ! (3 * p + k) +
           ((if unat a = p then - (gij * dr_at dr k) else 0) +
            (if unat b = p then gij * dr_at dr k else 0))"
proof -
  obtain d0 d1 d2 where dr: "dr = (d0, d1, d2)"
    by (cases dr)
  have a: "3 * unat a + 2 < 2 ^ 64"
    using valid_offsets(1) [OF assms(1,2)] assms(5) by linarith
  have b: "3 * unat b + 2 < 2 ^ 64"
    using valid_offsets(1) [OF assms(3,4)] assms(5) by linarith
  have n: "g' ! (3 * p + k) = g ! (3 * p + k)
      + (if unat a = p \<and> k = 0 then - (gij * d0) else 0)
      + (if unat a = p \<and> k = 1 then - (gij * d1) else 0)
      + (if unat a = p \<and> k = 2 then - (gij * d2) else 0)
      + (if unat b = p \<and> k = 0 then gij * d0 else 0)
      + (if unat b = p \<and> k = 1 then gij * d1 else 0)
      + (if unat b = p \<and> k = 2 then gij * d2 else 0)"
    using scatter_nth [OF assms(7) [unfolded dr], of "3 * p + k"]
    by (simp only: offset_eq [OF a] offset_eq [OF b] delta_slot [OF assms(6)])
  consider "k = 0" | "k = 1" | "k = 2"
    using assms(6) by arith
  then show ?thesis
  proof cases
    case 1
    then show ?thesis using n by (simp add: dr dr_at_def)
  next
    case 2
    then show ?thesis using n by (simp add: dr dr_at_def)
  next
    case 3
    then show ?thesis using n by (simp add: dr dr_at_def)
  qed
qed

lemma gradient_pairs_nth:
  fixes g :: "('a::{ab_group_add,times}) list"
  shows "gradient_pairs law x il e g = Some (e', g') \<Longrightarrow> even (length il) \<Longrightarrow>
   \<forall>a \<in> set il. 0 \<le> sint a \<and> sint a < int N \<Longrightarrow>
   length x = 3 * N \<Longrightarrow> 3 * N \<le> 2 ^ 64 \<Longrightarrow> k < 3 \<Longrightarrow>
   g' ! (3 * p + k) = g ! (3 * p + k) + sum_list (map (contribution law x p k) (pairs il))"
proof (induction law x il e g rule: gradient_pairs.induct)
  case (3 law x a b rest e grad)
  have va: "0 \<le> sint a" "sint a < int N" and vb: "0 \<le> sint b" "sint b < int N"
    using "3.prems"(3) by simp_all
  have sep: "separation x (atom_offset a) (atom_offset b) = Some (pair_dr x (a, b))"
    using separation_valid_eq [OF va vb "3.prems"(4,5)] .
  let ?dr = "pair_dr x (a, b)"
  let ?eg = "energy_gradient law (squared_norm ?dr)"
  obtain g1 where sc: "scatter grad (atom_offset a) (atom_offset b) (snd ?eg) ?dr = Some g1"
    and rest: "gradient_pairs law x rest (e + fst ?eg) g1 = Some (e', g')"
    using "3.prems"(1) sep by (auto split: option.splits)
  have "g1 ! (3 * p + k) = grad ! (3 * p + k) + contribution law x p k (a, b)"
    using scatter_valid_nth [OF va vb "3.prems"(5,6) sc, of p]
    by (simp add: contribution_def pair_gij_def)
  moreover have "g' ! (3 * p + k) = g1 ! (3 * p + k) +
      sum_list (map (contribution law x p k) (pairs rest))"
    using "3.IH" [OF sep sc rest] "3.prems" by simp
  ultimately show ?case
    by (simp add: add.assoc)
qed simp_all

lemma contribution_sum:
  fixes law :: "('a::{ab_group_add,times}) pairwise_interaction"
  assumes "unat a < N" "unat b < N"
  shows "(\<Sum>p<N. contribution law x p k (a, b)) = 0"
proof -
  let ?v = "pair_gij law x (a, b) * dr_at (pair_dr x (a, b)) k"
  have "(\<Sum>p<N. contribution law x p k (a, b)) =
      (\<Sum>p<N. if unat a = p then - ?v else 0) + (\<Sum>p<N. if unat b = p then ?v else 0)"
    by (simp add: contribution_def sum.distrib)
  also have "\<dots> = - ?v + ?v"
    using assms by (simp only: sum.delta' finite_lessThan lessThan_iff if_True)
  finally show ?thesis by simp
qed

lemma sum_sum_list:
  fixes f :: "nat \<Rightarrow> 'b \<Rightarrow> ('a::ab_group_add)"
  shows "(\<Sum>p<N. sum_list (map (f p) ys)) = sum_list (map (\<lambda>y. \<Sum>p<N. f p y) ys)"
  by (induction ys) (simp_all add: sum.distrib)

lemma gradient_valid_slots:
  fixes ev :: "(('a::{ab_group_add,times}), 'd) SimplePairwiseInteractionList"
  assumes "even (length (ilist ev))"
    and "\<forall>a \<in> set (ilist ev). 0 \<le> sint a \<and> sint a < int N"
    and "length x = 3 * N" and "length grad = length x" and "length x < 2 ^ 64"
  shows "\<exists>e g. get_energy_gradient ndebug ev x grad = Some (e, g) \<and>
           (\<forall>p<N. \<forall>k<3. g ! (3 * p + k) =
              sum_list (map (contribution (interaction ev) x p k) (pairs (ilist ev))))"
proof -
  have n: "3 * N \<le> 2 ^ 64" "N < 2 ^ 63"
    using assms(3,5) by simp_all
  have "\<exists>e g. gradient_pairs (interaction ev) x (ilist ev) 0 (replicate (length x) 0)
      = Some (e, g)"
    by (rule gradient_pairs_valid [OF assms(1,2,3)]) (simp add: assms(3))
  then obtain e g where
    gp: "gradient_pairs (interaction ev) x (ilist ev) 0 (replicate (length x) 0) = Some (e, g)"
    by blast
  have run: "get_energy_gradient ndebug ev x grad = Some (e, g)"
    using gp assms(4) assert_valid [OF assms(2) n(2)] assms(3)
    by (simp add: get_energy_gradient_matching)
  have "g ! (3 * p + k) = sum_list (map (contribution (interaction ev) x p k) (pairs (ilist ev)))"
    if "p < N" "k < 3" for p k
  proof -
    have "3 * p + k < length x"
      using that assms(3) by simp
    then have "replicate (length x) (0::'a) ! (3 * p + k) = 0"
      by simp
    then show ?thesis
      using gradient_pairs_nth [OF gp assms(1,2,3) n(1) that(2), of p] by simp
  qed
  with run show ?thesis by blast
qed

lemma gradient_slots_sum:
  fixes ev :: "(('a::{ab_group_add,times}), 'd) SimplePairwiseInteractionList"
  assumes "even (length (ilist ev))"
    and "\<forall>a \<in> set (ilist ev). 0 \<le> sint a \<and> sint a < int N"
    and "length x = 3 * N" and "length grad = length x" and "length x < 2 ^ 64"
  shows "\<exists>e g. get_energy_gradient ndebug ev x grad = Some (e, g) \<and>
           (\<forall>p<N. \<forall>k<3. g ! (3 * p + k) =
              sum_list (map (contribution (interaction ev) x p k)
                (filter (\<lambda>(a, b). unat a = p \<or> unat b = p) (pairs (ilist ev)))))"
proof -
  have "sum_list (map (contribution (interaction ev) x p k)
          (filter (\<lambda>(a, b). unat a = p \<or> unat b = p) (pairs (ilist ev)))) =
        sum_list (map (contribution (interaction ev) x p k) (pairs (ilist ev)))" for p k
    by (rule sum_list_map_filter) (auto simp add: contribution_def)
  then show ?thesis
    using gradient_valid_slots [OF assms, of ndebug] by simp
qed

lemma sub_at_nth_raw:
  "sub_at g q c = Some g' \<Longrightarrow> g' ! j = (if q = j then g ! j - c else g ! j)"
  by (auto simp add: sub_at_eq split: if_splits)

lemma add_at_nth_raw:
  "add_at g q c = Some g' \<Longrightarrow> g' ! j = (if q = j then g ! j + c else g ! j)"
  by (auto simp add: add_at_eq split: if_splits)

lemma scatter_valid_nth_raw:
  fixes a b :: long_int and g :: "('a::{zero,plus,minus,times}) list"
  assumes "0 \<le> sint a" "sint a < int N" "0 \<le> sint b" "sint b < int N"
    and "3 * N \<le> 2 ^ 64" and "k < 3"
    and "scatter g (atom_offset a) (atom_offset b) gij dr = Some g'"
  shows "g' ! (3 * p + k) =
           (let c = gij * dr_at dr k;
                v1 = (if unat a = p then g ! (3 * p + k) - c else g ! (3 * p + k))
            in if unat b = p then v1 + c else v1)"
proof -
  obtain d0 d1 d2 where dr: "dr = (d0, d1, d2)"
    by (cases dr)
  have a: "3 * unat a + 2 < 2 ^ 64"
    using valid_offsets(1) [OF assms(1,2)] assms(5) by linarith
  have b: "3 * unat b + 2 < 2 ^ 64"
    using valid_offsets(1) [OF assms(3,4)] assms(5) by linarith
  from assms(7) [unfolded dr] obtain g1 g2 g3 g4 g5 where
    s: "sub_at g (unat (atom_offset a)) (gij * d0) = Some g1"
    "sub_at g1 (unat (atom_offset a + 1)) (gij * d1) = Some g2"
    "sub_at g2 (unat (atom_offset a + 2)) (gij * d2) = Some g3"
    "add_at g3 (unat (atom_offset b)) (gij * d0) = Some g4"
    "add_at g4 (unat (atom_offset b + 1)) (gij * d1) = Some g5"
    "add_at g5 (unat (atom_offset b + 2)) (gij * d2) = Some g'"
    by (rule scatter_steps)
  let ?j = "3 * p + k"
  have s0: "\<And>u. (3 * u = 3 * p + k) = (u = p \<and> k = 0)"
    using slot_eq_iff [of 0 k _ p] assms(6) by auto
  have s1: "\<And>u. (3 * u + 1 = 3 * p + k) = (u = p \<and> k = 1)"
    using slot_eq_iff [of 1 k _ p] assms(6) by auto
  have s2: "\<And>u. (3 * u + 2 = 3 * p + k) = (u = p \<and> k = 2)"
    using slot_eq_iff [of 2 k _ p] assms(6) by auto
  have n1: "g1 ! ?j = (if unat a = p \<and> k = 0 then g ! ?j - gij * d0 else g ! ?j)"
    using sub_at_nth_raw [OF s(1), of ?j] by (simp only: offset_eq [OF a] s0)
  have n2: "g2 ! ?j = (if unat a = p \<and> k = 1 then g1 ! ?j - gij * d1 else g1 ! ?j)"
    using sub_at_nth_raw [OF s(2), of ?j] by (simp only: offset_eq [OF a] s1)
  have n3: "g3 ! ?j = (if unat a = p \<and> k = 2 then g2 ! ?j - gij * d2 else g2 ! ?j)"
    using sub_at_nth_raw [OF s(3), of ?j] by (simp only: offset_eq [OF a] s2)
  have n4: "g4 ! ?j = (if unat b = p \<and> k = 0 then g3 ! ?j + gij * d0 else g3 ! ?j)"
    using add_at_nth_raw [OF s(4), of ?j] by (simp only: offset_eq [OF b] s0)
  have n5: "g5 ! ?j = (if unat b = p \<and> k = 1 then g4 ! ?j + gij * d1 else g4 ! ?j)"
    using add_at_nth_raw [OF s(5), of ?j] by (simp only: offset_eq [OF b] s1)
  have n6: "g' ! ?j = (if unat b = p \<and> k = 2 then g5 ! ?j + gij * d2 else g5 ! ?j)"
    using add_at_nth_raw [OF s(6), of ?j] by (simp only: offset_eq [OF b] s2)
  consider "k = 0" | "k = 1" | "k = 2"
    using assms(6) by arith
  then show ?thesis
  proof cases
    case 1
    then show ?thesis using n1 n2 n3 n4 n5 n6 by (simp add: dr dr_at_def Let_def)
  next
    case 2
    then show ?thesis using n1 n2 n3 n4 n5 n6 by (simp add: dr dr_at_def Let_def)
  next
    case 3
    then show ?thesis using n1 n2 n3 n4 n5 n6 by (simp add: dr dr_at_def Let_def)
  qed
qed

lemma gradient_pairs_nth_raw:
  fixes g :: "('a::{zero,plus,minus,times}) list"
  shows "gradient_pairs law x il e g = Some (e', g') \<Longrightarrow> even (length il) \<Longrightarrow>
   \<forall>a \<in> set il. 0 \<le> sint a \<and> sint a < int N \<Longrightarrow>
   length x = 3 * N \<Longrightarrow> 3 * N \<le> 2 ^ 64 \<Longrightarrow> k < 3 \<Longrightarrow>
   g' ! (3 * p + k) = foldl (accumulate law x p k) (g ! (3 * p + k)) (pairs il)"
proof (induction law x il e g rule: gradient_pairs.induct)
  case (3 law x a b rest e grad)
  have va: "0 \<le> sint a" "sint a < int N" and vb: "0 \<le> sint b" "sint b < int N"
    using "3.prems"(3) by simp_all
  have sep: "separation x (atom_offset a) (atom_offset b) = Some (pair_dr x (a, b))"
    using separation_valid_eq [OF va vb "3.prems"(4,5)] .
  let ?dr = "pair_dr x (a, b)"
  let ?eg = "energy_gradient law (squared_norm ?dr)"
  obtain g1 where sc: "scatter grad (atom_offset a) (atom_offset b) (snd ?eg) ?dr = Some g1"
    and rest: "gradient_pairs law x rest (e + fst ?eg) g1 = Some (e', g')"
    using "3.prems"(1) sep by (auto split: option.splits)
  have "g1 ! (3 * p + k) = accumulate law x p k (grad ! (3 * p + k)) (a, b)"
    using scatter_valid_nth_raw [OF va vb "3.prems"(5,6) sc, of p]
    by (simp add: accumulate_def pair_gij_def)
  moreover have "g' ! (3 * p + k) =
      foldl (accumulate law x p k) (g1 ! (3 * p + k)) (pairs rest)"
    using "3.IH" [OF sep sc rest] "3.prems" by simp
  ultimately show ?case
    by simp
qed simp_all

lemma foldl_filter_neutral:
  "(\<And>v y. \<not> P y \<Longrightarrow> f v y = v) \<Longrightarrow> foldl f v (filter P ys) = foldl f v ys"
  by (induction ys arbitrary: v) simp_all

subsection \<open>Exchanging the two indices of a pair\<close>

lemma separation_swap:
  fixes x :: "('a::ring) list"
  shows "separation x i2 i1 =
     map_option (\<lambda>(d0, d1, d2). (- d0, - d1, - d2)) (separation x i1 i2)"
  by (simp add: separation_eq)

lemma squared_norm_neg:
  fixes d0 :: "'a::ring"
  shows "squared_norm (- d0, - d1, - d2) = squared_norm (d0, d1, d2)"
  by (simp add: squared_norm_def)

lemma scatter_swap:
  fixes g :: "('a::ring) list"
  shows "scatter g i2 i1 gij (- d0, - d1, - d2) = scatter g i1 i2 gij (d0, d1, d2)"
proof (cases "scatter g i1 i2 gij (d0, d1, d2)")
  case None
  show ?thesis
  proof (cases "scatter g i2 i1 gij (- d0, - d1, - d2)")
    case (Some h)
    from scatter_bounds [OF Some]
    have "\<exists>g'. scatter g i1 i2 gij (d0, d1, d2) = Some g'"
      by (intro scatter_Some) simp_all
    with None show ?thesis by simp
  qed (simp add: None)
next
  case (Some g')
  from scatter_bounds [OF Some]
  have "\<exists>h. scatter g i2 i1 gij (- d0, - d1, - d2) = Some h"
    by (intro scatter_Some) simp_all
  then obtain h where h: "scatter g i2 i1 gij (- d0, - d1, - d2) = Some h"
    by blast
  have "length h = length g'"
    using scatter_length [OF h] scatter_length [OF Some] by simp
  moreover have "h ! j = g' ! j" for j
    by (simp add: scatter_nth [OF h] scatter_nth [OF Some])
  ultimately have "h = g'"
    by (simp add: list_eq_iff_nth_eq)
  with h Some show ?thesis by simp
qed

lemma energy_pairs_swap:
  fixes x :: "('a::ring) list"
  shows "energy_pairs law x (b # a # rest) e = energy_pairs law x (a # b # rest) e"
  by (cases "separation x (atom_offset a) (atom_offset b)")
    (auto simp add: separation_swap [of x "atom_offset b" "atom_offset a"] squared_norm_neg)

lemma gradient_pairs_swap:
  fixes x :: "('a::ring) list"
  shows "gradient_pairs law x (b # a # rest) e g = gradient_pairs law x (a # b # rest) e g"
  by (cases "separation x (atom_offset a) (atom_offset b)")
    (auto simp add: separation_swap [of x "atom_offset b" "atom_offset a"] squared_norm_neg
      scatter_swap split: option.splits)

lemma energy_pairs_append:
  "even (length pre) \<Longrightarrow>
   energy_pairs law x (pre @ il) e =
     (case energy_pairs law x pre e of None \<Rightarrow> None | Some e1 \<Rightarrow> energy_pairs law x il e1)"
  by (induction law x pre e rule: energy_pairs.induct) (simp_all split: option.splits)

lemma gradient_pairs_append:
  "even (length pre) \<Longrightarrow>
   gradient_pairs law x (pre @ il) e g =
     (case gradient_pairs law x pre e g of None \<Rightarrow> None
      | Some (e1, g1) \<Rightarrow> gradient_pairs law x il e1 g1)"
  by (induction law x pre e g rule: gradient_pairs.induct) (simp_all split: option.splits)

text \<open>The equations that run the model on an input.\<close>

lemmas run_defs =
  get_energy_def get_energy_gradient_def new_SimplePairwiseInteractionList_def
  energy_loop.simps zero_loop.simps assert_loop.simps gradient_loop.simps
  array_get_def array_set_def separation_def squared_norm_def scatter_def
  sub_at_def add_at_def atom_offset_def

section \<open>The claims\<close>

subsection \<open>C1: the single pair of the specification's example\<close>

text \<open>
  C1, as the code has it. The pair \<open>(0, 1)\<close>, the law \<open>energy r2 = r2\<close>,
  \<open>energy_gradient r2 = (r2, 2)\<close>, particle 0 at \<open>(0,0,0)\<close> and particle 1 at
  \<open>(1,0,0)\<close>: both operations return the energy 1, and \<open>get_energy_gradient\<close> writes
  the gradient \<open>(2, 0, 0)\<close> for particle 0 and \<open>(-2, 0, 0)\<close> for particle 1, whatever
  the buffer held and in both build modes. The separation is
  \<open>dr = pos 0 - pos 1 = (-1, 0, 0)\<close>, and \<open>gij * dr\<close> is subtracted from the slot of
  particle 0 and added to that of particle 1.
\<close>

theorem single_pair_example:
  "get_energy
     (new_SimplePairwiseInteractionList
        \<lparr> energy = (\<lambda>r2. r2), energy_gradient = (\<lambda>r2. (r2, 2)) \<rparr> [0, 1] dist0 new_dist)
     [0, 0, 0, 1, 0, 0 :: real] = Some 1 \<and>
   get_energy_gradient ndebug
     (new_SimplePairwiseInteractionList
        \<lparr> energy = (\<lambda>r2. r2), energy_gradient = (\<lambda>r2. (r2, 2)) \<rparr> [0, 1] dist0 new_dist)
     [0, 0, 0, 1, 0, 0 :: real] [g0, g1, g2, g3, g4, g5] = Some (1, [2, 0, 0, - 2, 0, 0])"
  by (simp add: run_defs)

text \<open>
  C1 as stated fails: the gradient is not \<open>(-2, 0, 0)\<close> for particle 0 and
  \<open>(2, 0, 0)\<close> for particle 1.
\<close>

theorem single_pair_example_counterexample:
  "\<not> (get_energy_gradient True
     (new_SimplePairwiseInteractionList
        \<lparr> energy = (\<lambda>r2. r2), energy_gradient = (\<lambda>r2. (r2, 2)) \<rparr> [0, 1] None ())
     [0, 0, 0, 1, 0, 0 :: real] [0, 0, 0, 0, 0, 0] = Some (1, [- 2, 0, 0, 2, 0, 0]))"
  by (simp add: run_defs)

subsection \<open>C2: the distance policy is stored and never read\<close>

text \<open>
  C2. Two evaluators built from the same law and the same list, with any two distance
  policies (given or default-constructed, even of two policy types), return the same
  energy and the same gradient on every coordinate and gradient buffer; and the separation
  of a pair is the plain difference of the coordinates, axis by axis, where the six reads
  are in bounds.
\<close>

theorem distance_policy_not_consulted:
  "get_energy (new_SimplePairwiseInteractionList law il dist1 new_dist1) x =
     get_energy (new_SimplePairwiseInteractionList law il dist2 new_dist2) x \<and>
   get_energy_gradient ndebug (new_SimplePairwiseInteractionList law il dist1 new_dist1) x grad =
     get_energy_gradient ndebug (new_SimplePairwiseInteractionList law il dist2 new_dist2) x grad \<and>
   separation x i1 i2 =
     (if unat i1 < length x \<and> unat i2 < length x \<and> unat (i1 + 1) < length x \<and>
         unat (i2 + 1) < length x \<and> unat (i1 + 2) < length x \<and> unat (i2 + 2) < length x
      then Some (x ! unat i1 - x ! unat i2, x ! unat (i1 + 1) - x ! unat (i2 + 1),
                 x ! unat (i1 + 2) - x ! unat (i2 + 2))
      else None)"
  by (simp add: get_energy_members get_energy_gradient_members separation_eq [symmetric])

subsection \<open>C3: the two operations return the same energy\<close>

text \<open>
  C3. Let the law's \<^verbatim>\<open>energy\<close> agree with the energy that its \<^verbatim>\<open>energy_gradient\<close>
  returns, and let the gradient buffer have the length of the coordinate buffer. Then in
  either build mode an energy returned by \<open>get_energy_gradient\<close> is the energy that
  \<open>get_energy\<close> returns on the same coordinates; and with \<^verbatim>\<open>NDEBUG\<close> the two
  operations return or fail together, with the same energy.
\<close>

theorem energy_paths_agree:
  assumes "\<forall>r2. energy (interaction ev) r2 = fst (energy_gradient (interaction ev) r2)"
    and "length grad = length x"
  shows "(\<forall>e g. get_energy_gradient ndebug ev x grad = Some (e, g) \<longrightarrow> get_energy ev x = Some e) \<and>
         map_option fst (get_energy_gradient True ev x grad) = get_energy ev x"
proof -
  have a: "get_energy ev x = Some e"
    if "get_energy_gradient nd ev x grad = Some (e, g)" for nd e g
  proof -
    have "gradient_pairs (interaction ev) x (ilist ev) 0 (replicate (length x) 0) = Some (e, g)"
      using that assms(2) by (simp add: get_energy_gradient_matching split: if_splits)
    then show ?thesis
      using assms(1) by (simp add: get_energy_pairs gradient_pairs_energy)
  qed
  have b: "map_option fst (get_energy_gradient True ev x grad) = get_energy ev x"
  proof (cases "get_energy ev x")
    case None
    then show ?thesis
      using a [of True] by (cases "get_energy_gradient True ev x grad") auto
  next
    case (Some e)
    then have "\<exists>g'. gradient_pairs (interaction ev) x (ilist ev) 0 (replicate (length x) 0)
        = Some (e, g')"
      using assms(1) by (intro energy_pairs_gradient) (simp_all add: get_energy_pairs)
    then show ?thesis
      using Some assms(2) by (auto simp add: get_energy_gradient_matching)
  qed
  from a b show ?thesis by blast
qed

theorem energy_paths_agree_witness:
  "get_energy
     (new_SimplePairwiseInteractionList
        \<lparr> energy = (\<lambda>r2. r2), energy_gradient = (\<lambda>r2. (r2, 2)) \<rparr> [0, 1] None ())
     [0, 0, 0, 1, 0, 0 :: real] = Some 1 \<and>
   map_option fst (get_energy_gradient True
     (new_SimplePairwiseInteractionList
        \<lparr> energy = (\<lambda>r2. r2), energy_gradient = (\<lambda>r2. (r2, 2)) \<rparr> [0, 1] None ())
     [0, 0, 0, 1, 0, 0 :: real] [7, 7, 7, 7, 7, 7]) = Some 1"
proof -
  let ?ev = "new_SimplePairwiseInteractionList
        \<lparr> energy = (\<lambda>r2. r2), energy_gradient = (\<lambda>r2. (r2 :: real, 2)) \<rparr> [0, 1] None ()"
  have run: "get_energy_gradient False ?ev [0, 0, 0, 1, 0, 0] [7, 7, 7, 7, 7, 7]
      = Some (1, [2, 0, 0, - 2, 0, 0])"
    by (simp add: run_defs)
  have h1: "\<forall>r2. energy (interaction ?ev) r2 = fst (energy_gradient (interaction ?ev) r2)"
    by simp
  have h2: "length [7, 7, 7, 7, 7, 7 :: real] = length [0, 0, 0, 1, 0, 0 :: real]"
    by simp
  from energy_paths_agree [OF h1 h2, of False] run show ?thesis
    by simp
qed

subsection \<open>C4: the empty list\<close>

text \<open>
  C4. With an empty interaction list \<open>get_energy\<close> returns 0 on every coordinate
  buffer, and \<open>get_energy_gradient\<close>, on a gradient buffer of the length of the
  coordinate buffer, returns 0 and leaves every entry 0, whatever the buffer held.
\<close>

theorem empty_list_zero:
  assumes "length grad = length x"
  shows "get_energy (new_SimplePairwiseInteractionList law [] dist0 new_dist) x = Some 0 \<and>
         get_energy_gradient ndebug (new_SimplePairwiseInteractionList law [] dist0 new_dist) x grad
           = Some (0, replicate (length x) 0)"
  using assms
  by (simp add: get_energy_pairs get_energy_gradient_matching)

theorem empty_list_zero_witness:
  "get_energy
     (new_SimplePairwiseInteractionList
        \<lparr> energy = (\<lambda>r2. r2), energy_gradient = (\<lambda>r2. (r2, 2)) \<rparr> [] None ())
     [1, 2, 3 :: real] = Some 0 \<and>
   get_energy_gradient False
     (new_SimplePairwiseInteractionList
        \<lparr> energy = (\<lambda>r2. r2), energy_gradient = (\<lambda>r2. (r2, 2)) \<rparr> [] None ())
     [1, 2, 3 :: real] [4, 5, 6] = Some (0, [0, 0, 0])"
  using empty_list_zero [of "[4, 5, 6 :: real]" "[1, 2, 3]"
      "\<lparr> energy = (\<lambda>r2. r2), energy_gradient = (\<lambda>r2. (r2, 2)) \<rparr>" None "()" False]
  by (simp add: numeral_3_eq_3)

subsection \<open>C5: the gradient buffer is overwritten\<close>

text \<open>
  C5. On a gradient buffer of the length of the coordinate buffer the first loop of
  \<open>get_energy_gradient\<close> leaves every entry 0; the result (energy and gradient) is the
  same for any two such buffers; and a second call on the buffer that the first call has
  written returns the same energy and the same gradient.
\<close>

theorem gradient_overwritten:
  assumes "length grad = length x" and "length grad' = length x"
  shows "zero_loop (length x) 0 grad = Some (replicate (length x) 0) \<and>
         get_energy_gradient ndebug ev x grad' = get_energy_gradient ndebug ev x grad \<and>
         (\<forall>e g. get_energy_gradient ndebug ev x grad = Some (e, g) \<longrightarrow>
                get_energy_gradient ndebug ev x g = Some (e, g))"
proof -
  have z: "zero_loop (length x) 0 grad = Some (replicate (length x) 0)"
    using assms(1) by (simp add: zero_loop_Some)
  have same: "get_energy_gradient ndebug ev x h = get_energy_gradient ndebug ev x grad"
    if "length h = length x" for h
    using that assms(1) by (simp add: get_energy_gradient_matching)
  have "get_energy_gradient ndebug ev x g = Some (e, g)"
    if r: "get_energy_gradient ndebug ev x grad = Some (e, g)" for e g
  proof -
    have "gradient_pairs (interaction ev) x (ilist ev) 0 (replicate (length x) 0) = Some (e, g)"
      using r assms(1) by (simp add: get_energy_gradient_matching split: if_splits)
    then have "length g = length x"
      by (simp add: gradient_pairs_length)
    then show ?thesis
      using same [of g] r by simp
  qed
  with z same [OF assms(2)] show ?thesis
    by blast
qed

theorem gradient_overwritten_witness:
  "get_energy_gradient True
     (new_SimplePairwiseInteractionList
        \<lparr> energy = (\<lambda>r2. r2), energy_gradient = (\<lambda>r2. (r2, 2)) \<rparr> [0, 1] None ())
     [0, 0, 0, 1, 0, 0 :: real] [1, 2, 3, 4, 5, 6] =
   get_energy_gradient True
     (new_SimplePairwiseInteractionList
        \<lparr> energy = (\<lambda>r2. r2), energy_gradient = (\<lambda>r2. (r2, 2)) \<rparr> [0, 1] None ())
     [0, 0, 0, 1, 0, 0 :: real] [7, 7, 7, 7, 7, 7] \<and>
   get_energy_gradient True
     (new_SimplePairwiseInteractionList
        \<lparr> energy = (\<lambda>r2. r2), energy_gradient = (\<lambda>r2. (r2, 2)) \<rparr> [0, 1] None ())
     [0, 0, 0, 1, 0, 0 :: real] [2, 0, 0, - 2, 0, 0] = Some (1, [2, 0, 0, - 2, 0, 0])"
proof -
  let ?ev = "new_SimplePairwiseInteractionList
        \<lparr> energy = (\<lambda>r2. r2), energy_gradient = (\<lambda>r2. (r2 :: real, 2)) \<rparr> [0, 1] None ()"
  have run: "get_energy_gradient True ?ev [0, 0, 0, 1, 0, 0] [7, 7, 7, 7, 7, 7]
      = Some (1, [2, 0, 0, - 2, 0, 0])"
    by (simp add: run_defs)
  have l1: "length [7, 7, 7, 7, 7, 7 :: real] = length [0, 0, 0, 1, 0, 0 :: real]"
    by simp
  have l2: "length [1, 2, 3, 4, 5, 6 :: real] = length [0, 0, 0, 1, 0, 0 :: real]"
    by simp
  from gradient_overwritten [OF l1 l2, of True ?ev] run show ?thesis
    by blast
qed

subsection \<open>C6: exchanging the two indices of a pair\<close>

text \<open>
  C6, as the code has it. Both parts are for exact arithmetic (a ring): in exact
  arithmetic, replacing a pair \<open>(a, b)\<close> of the list by \<open>(b, a)\<close> changes nothing.
  \<open>get_energy\<close> returns the same energy, and \<open>get_energy_gradient\<close> the same energy and
  the same gradient buffer, so the contribution of the pair to the slots of both particles
  is the same. The energy part uses \<open>b - a = - (a - b)\<close> and \<open>(- d) * (- d) = d * d\<close>: the
  separation \<open>dr\<close> changes sign, \<open>r2\<close> and \<open>gij\<close> do not. The gradient part uses also
  \<open>gij * (- d) = - (gij * d)\<close> and that additions to an entry commute: the slot that had
  \<open>gij * dr\<close> subtracted now has \<open>gij * (- dr)\<close> added. The pair stands anywhere in the
  list, after a part \<open>pre\<close> of even length; nothing is asked of the indices or the buffers.
\<close>

theorem pair_swap:
  fixes ev :: "(('a::ring), 'd) SimplePairwiseInteractionList"
  assumes "even (length pre)"
  shows "get_energy (ev\<lparr>ilist := pre @ [b, a] @ suf\<rparr>) x =
           get_energy (ev\<lparr>ilist := pre @ [a, b] @ suf\<rparr>) x \<and>
         get_energy_gradient ndebug (ev\<lparr>ilist := pre @ [b, a] @ suf\<rparr>) x grad =
           get_energy_gradient ndebug (ev\<lparr>ilist := pre @ [a, b] @ suf\<rparr>) x grad"
proof -
  have e: "energy_pairs law x (pre @ [b, a] @ suf) e0 = energy_pairs law x (pre @ [a, b] @ suf) e0"
    for law :: "'a pairwise_interaction" and e0
  proof -
    have "energy_pairs law x ([b, a] @ suf) e1 = energy_pairs law x ([a, b] @ suf) e1" for e1
      by (simp only: append_Cons append_Nil energy_pairs_swap)
    then show ?thesis
      by (simp only: energy_pairs_append [OF assms] cong: option.case_cong)
  qed
  have g: "gradient_pairs law x (pre @ [b, a] @ suf) e0 g0 =
      gradient_pairs law x (pre @ [a, b] @ suf) e0 g0"
    for law :: "'a pairwise_interaction" and e0 g0
  proof -
    have "gradient_pairs law x ([b, a] @ suf) e1 g1 = gradient_pairs law x ([a, b] @ suf) e1 g1"
      for e1 g1
      by (simp only: append_Cons append_Nil gradient_pairs_swap)
    then show ?thesis
      by (simp only: gradient_pairs_append [OF assms] cong: option.case_cong prod.case_cong)
  qed
  have s: "set (pre @ b # a # suf) = set (pre @ a # b # suf)"
    by auto
  have e': "energy_pairs law x (pre @ b # a # suf) e0 = energy_pairs law x (pre @ a # b # suf) e0"
    for law :: "'a pairwise_interaction" and e0
    using e [of law e0] by simp
  have g': "gradient_pairs law x (pre @ b # a # suf) e0 g0 =
      gradient_pairs law x (pre @ a # b # suf) e0 g0"
    for law :: "'a pairwise_interaction" and e0 g0
    using g [of law e0 g0] by simp
  show ?thesis
    by (cases ndebug)
      (auto simp add: get_energy_pairs get_energy_gradient_release get_energy_gradient_debug
        e' g' s simp del: set_append)
qed

theorem pair_swap_witness:
  "get_energy_gradient True
     ((new_SimplePairwiseInteractionList
        \<lparr> energy = (\<lambda>r2. r2), energy_gradient = (\<lambda>r2. (r2, 2)) \<rparr> [] None ())
      \<lparr>ilist := [0, 1] @ [2, 1] @ []\<rparr>)
     [0, 0, 0, 1, 0, 0, 1, 2, 0 :: real] [7, 7, 7, 7, 7, 7, 7, 7, 7]
     = Some (5, [2, 0, 0, - 2, 4, 0, 0, - 4, 0])"
proof -
  let ?law = "\<lparr> energy = (\<lambda>r2. r2), energy_gradient = (\<lambda>r2. (r2 :: real, 2)) \<rparr>"
  let ?ev = "new_SimplePairwiseInteractionList ?law [] None ()"
  let ?x = "[0, 0, 0, 1, 0, 0, 1, 2, 0 :: real]"
  let ?g0 = "[7, 7, 7, 7, 7, 7, 7, 7, 7 :: real]"
  have run: "get_energy_gradient True (?ev\<lparr>ilist := [0, 1] @ [1, 2] @ []\<rparr>) ?x ?g0
      = Some (5, [2, 0, 0, - 2, 4, 0, 0, - 4, 0])"
    by (simp add: run_defs)
  have h: "even (length [0, 1 :: long_int])"
    by simp
  from pair_swap [OF h, where ev = ?ev and a = 1 and b = 2 and suf = "[]" and x = ?x
      and ndebug = True and grad = ?g0] run
  show ?thesis
    by simp
qed

text \<open>
  C6 as stated fails: for the pair \<open>(0, 1)\<close> of C1 the gradient with the list \<open>[1, 0]\<close>
  is not the negation of the gradient with the list \<open>[0, 1]\<close>.
\<close>

theorem pair_swap_counterexample:
  "\<not> (\<exists>e g e' g'.
     get_energy_gradient True
       (new_SimplePairwiseInteractionList
          \<lparr> energy = (\<lambda>r2. r2), energy_gradient = (\<lambda>r2. (r2, 2)) \<rparr> [0, 1] None ())
       [0, 0, 0, 1, 0, 0 :: real] [0, 0, 0, 0, 0, 0] = Some (e, g) \<and>
     get_energy_gradient True
       (new_SimplePairwiseInteractionList
          \<lparr> energy = (\<lambda>r2. r2), energy_gradient = (\<lambda>r2. (r2, 2)) \<rparr> [1, 0] None ())
       [0, 0, 0, 1, 0, 0 :: real] [0, 0, 0, 0, 0, 0] = Some (e', g') \<and>
     e' = e \<and> g' = map uminus g)"
  by (simp add: run_defs)

subsection \<open>C7: a particle in several pairs\<close>

text \<open>
  C7. Let the list have even length with every index \<open>a\<close> in \<open>0 \<le> a < N\<close>, the
  coordinate buffer have length \<open>3N\<close>, a \<^verbatim>\<open>size_t\<close> value, and the gradient buffer the
  same length. Then \<open>get_energy_gradient\<close> returns, and the entry of axis \<open>k\<close> of every
  particle \<open>p\<close> is the sum of the contributions of the pairs that contain \<open>p\<close>: starting
  from the 0 of the first loop and going through these pairs in the order of the list,
  \<open>gij * dr[k]\<close> of the pair is subtracted where \<open>p\<close> is its first index and added where
  \<open>p\<close> is its second (\<open>accumulate\<close>). Nothing but the zeroing resets the entry. No law of
  the arithmetic is used; in exact arithmetic the entry is the sum \<open>sum_list\<close> of the
  \<open>contribution\<close>s, which is \<open>gradient_slots_sum\<close> above.
\<close>

theorem gradient_superposition:
  fixes ev :: "(('a::{zero,plus,minus,times}), 'd) SimplePairwiseInteractionList"
  assumes "even (length (ilist ev))"
    and "\<forall>a \<in> set (ilist ev). 0 \<le> sint a \<and> sint a < int N"
    and "length x = 3 * N" and "length grad = length x" and "length x < 2 ^ 64"
  shows "\<exists>e g. get_energy_gradient ndebug ev x grad = Some (e, g) \<and>
           (\<forall>p<N. \<forall>k<3. g ! (3 * p + k) =
              foldl (accumulate (interaction ev) x p k) 0
                (filter (\<lambda>(a, b). unat a = p \<or> unat b = p) (pairs (ilist ev))))"
proof -
  have n: "3 * N \<le> 2 ^ 64" "N < 2 ^ 63"
    using assms(3,5) by simp_all
  have "\<exists>e g. gradient_pairs (interaction ev) x (ilist ev) 0 (replicate (length x) 0)
      = Some (e, g)"
    by (rule gradient_pairs_valid [OF assms(1,2,3)]) (simp add: assms(3))
  then obtain e g where
    gp: "gradient_pairs (interaction ev) x (ilist ev) 0 (replicate (length x) 0) = Some (e, g)"
    by blast
  have run: "get_energy_gradient ndebug ev x grad = Some (e, g)"
    using gp assms(4) assert_valid [OF assms(2) n(2)] assms(3)
    by (simp add: get_energy_gradient_matching)
  have "g ! (3 * p + k) = foldl (accumulate (interaction ev) x p k) 0
      (filter (\<lambda>(a, b). unat a = p \<or> unat b = p) (pairs (ilist ev)))"
    if "p < N" "k < 3" for p k
  proof -
    have "3 * p + k < length x"
      using that assms(3) by simp
    then have "replicate (length x) (0::'a) ! (3 * p + k) = 0"
      by simp
    then have "g ! (3 * p + k) =
        foldl (accumulate (interaction ev) x p k) 0 (pairs (ilist ev))"
      using gradient_pairs_nth_raw [OF gp assms(1,2,3) n(1) that(2), of p] by simp
    moreover have "foldl (accumulate (interaction ev) x p k) 0
        (filter (\<lambda>(a, b). unat a = p \<or> unat b = p) (pairs (ilist ev))) =
        foldl (accumulate (interaction ev) x p k) 0 (pairs (ilist ev))"
      by (rule foldl_filter_neutral) (auto simp add: accumulate_def Let_def split: if_splits)
    ultimately show ?thesis
      by simp
  qed
  with run show ?thesis by blast
qed

theorem gradient_superposition_witness:
  "get_energy_gradient True
     (new_SimplePairwiseInteractionList
        \<lparr> energy = (\<lambda>r2. r2), energy_gradient = (\<lambda>r2. (r2, 2)) \<rparr> [0, 1, 1, 2] None ())
     [0, 0, 0, 1, 0, 0, 1, 2, 0 :: real] [7, 7, 7, 7, 7, 7, 7, 7, 7]
     = Some (5, [2, 0, 0, - 2, 4, 0, 0, - 4, 0]) \<and>
   [2, 0, 0, - 2, 4, 0, 0, - 4, 0 :: real] ! (3 * 1 + 1) =
     foldl (accumulate \<lparr> energy = (\<lambda>r2. r2), energy_gradient = (\<lambda>r2. (r2, 2)) \<rparr>
              [0, 0, 0, 1, 0, 0, 1, 2, 0] 1 1) 0 [(0, 1), (1, 2)] \<and>
   foldl (accumulate \<lparr> energy = (\<lambda>r2. r2), energy_gradient = (\<lambda>r2. (r2, 2)) \<rparr>
            [0, 0, 0, 1, 0, 0, 1, 2, 0 :: real] 1 1) 0 [(0, 1), (1, 2)] = (0 + 2 * 0) - 2 * (- 2)"
proof -
  let ?law = "\<lparr> energy = (\<lambda>r2. r2), energy_gradient = (\<lambda>r2. (r2 :: real, 2)) \<rparr>"
  let ?ev = "new_SimplePairwiseInteractionList ?law [0, 1, 1, 2] None ()"
  let ?x = "[0, 0, 0, 1, 0, 0, 1, 2, 0 :: real]"
  let ?g0 = "[7, 7, 7, 7, 7, 7, 7, 7, 7 :: real]"
  have run: "get_energy_gradient True ?ev ?x ?g0 = Some (5, [2, 0, 0, - 2, 4, 0, 0, - 4, 0])"
    by (simp add: run_defs)
  have h1: "even (length (ilist ?ev))" by simp
  have h2: "\<forall>a \<in> set (ilist ?ev). 0 \<le> sint a \<and> sint a < int 3" by simp
  have h3: "length ?x = 3 * 3" by simp
  have h4: "length ?g0 = length ?x" by simp
  have h5: "length ?x < 2 ^ 64" by simp
  from gradient_superposition [OF h1 h2 h3 h4 h5, of True] run
  have sl: "\<forall>p<3. \<forall>k<3. [2, 0, 0, - 2, 4, 0, 0, - 4, 0 :: real] ! (3 * p + k) =
      foldl (accumulate ?law ?x p k) 0
        (filter (\<lambda>(a, b). unat a = p \<or> unat b = p) (pairs [0, 1, 1, 2]))"
    by simp
  have "[2, 0, 0, - 2, 4, 0, 0, - 4, 0 :: real] ! (3 * 1 + 1) =
      foldl (accumulate ?law ?x 1 1) 0
        (filter (\<lambda>(a, b). unat a = 1 \<or> unat b = 1) (pairs [0, 1, 1, 2]))"
    using sl [rule_format, of 1 1] by simp
  moreover have "foldl (accumulate ?law ?x 1 1) 0 [(0, 1), (1, 2)] = (0 + 2 * 0) - 2 * (- 2)"
    by (simp add: accumulate_def pair_gij_def pair_dr_def dr_at_def squared_norm_def)
  ultimately show ?thesis
    using run by simp
qed

subsection \<open>C8: the energy is the sum of the energies of the pairs\<close>

text \<open>
  C8. A list of \<open>2K\<close> entries has \<open>K\<close> pairs, and \<open>get_energy\<close> returns the sum, taken
  from 0 in the order of the list, of the energies of the pairs, each
  \<open>energy (|pos a - pos b|\<^sup>2)\<close> computed from its pair alone (\<open>pair_energy\<close>); it fails
  exactly when a pair reads out of bounds. \<open>pair_energy\<close> of a pair is what \<open>get_energy\<close>
  adds to 0 on the list of this one pair. No law of the arithmetic is used.
\<close>

theorem energy_decomposes:
  assumes "length (ilist ev) = 2 * K"
  shows "length (pairs (ilist ev)) = K \<and>
         get_energy ev x =
           map_option (foldl (+) 0)
             (those (map (pair_energy (interaction ev) x) (pairs (ilist ev)))) \<and>
         get_energy (ev\<lparr>ilist := [a, b]\<rparr>) x =
           map_option ((+) 0) (pair_energy (interaction ev) x (a, b))"
proof -
  have "even (length (ilist ev))"
    using assms by simp
  then have "get_energy ev x =
      map_option (foldl (+) 0) (those (map (pair_energy (interaction ev) x) (pairs (ilist ev))))"
    by (simp add: get_energy_pairs energy_pairs_fold)
  moreover have "get_energy (ev\<lparr>ilist := [a, b]\<rparr>) x =
      map_option ((+) 0) (pair_energy (interaction ev) x (a, b))"
    by (cases "separation x (atom_offset a) (atom_offset b)")
      (simp_all add: get_energy_pairs pair_energy_def)
  ultimately show ?thesis
    using assms by (simp add: length_pairs)
qed

theorem energy_decomposes_witness:
  "get_energy
     (new_SimplePairwiseInteractionList
        \<lparr> energy = (\<lambda>r2. r2), energy_gradient = (\<lambda>r2. (r2, 2)) \<rparr> [0, 1, 1, 2] None ())
     [0, 0, 0, 1, 0, 0, 1, 2, 0 :: real] = Some (0 + 1 + 4)"
proof -
  let ?law = "\<lparr> energy = (\<lambda>r2. r2), energy_gradient = (\<lambda>r2. (r2 :: real, 2)) \<rparr>"
  let ?ev = "new_SimplePairwiseInteractionList ?law [0, 1, 1, 2] None ()"
  have h: "length (ilist ?ev) = 2 * 2"
    by simp
  have "those (map (pair_energy (interaction ?ev) [0, 0, 0, 1, 0, 0, 1, 2, 0]) (pairs (ilist ?ev)))
      = Some [1, 4]"
    by (simp add: pair_energy_def separation_def array_get_def atom_offset_def squared_norm_def)
  with energy_decomposes [OF h, of "[0, 0, 0, 1, 0, 0, 1, 2, 0]"] show ?thesis
    by simp
qed

subsection \<open>C9: the two updates of a pair cancel\<close>

text \<open>
  C9, in exact arithmetic (an abelian group under \<open>+\<close>). Under the conditions of C7
  \<open>get_energy_gradient\<close> returns a gradient whose entries of each axis sum to 0 over the
  particles; and the updates of one pair \<open>a \<noteq> b\<close> are opposite: the entry of axis \<open>k\<close> of
  \<open>a\<close> loses \<open>gij * dr[k]\<close> and that of \<open>b\<close> gains the same product.
\<close>

theorem gradient_sums_to_zero:
  fixes ev :: "(('a::{ab_group_add,times}), 'd) SimplePairwiseInteractionList"
  assumes "even (length (ilist ev))"
    and "\<forall>a \<in> set (ilist ev). 0 \<le> sint a \<and> sint a < int N"
    and "length x = 3 * N" and "length grad = length x" and "length x < 2 ^ 64"
  shows "(\<exists>e g. get_energy_gradient ndebug ev x grad = Some (e, g) \<and>
            (\<forall>k<3. (\<Sum>p<N. g ! (3 * p + k)) = 0)) \<and>
         (\<forall>a b (h :: 'a list) h' gij dr k.
            0 \<le> sint a \<and> sint a < int N \<and> 0 \<le> sint b \<and> sint b < int N \<and> a \<noteq> b \<and> k < 3 \<and>
            scatter h (atom_offset a) (atom_offset b) gij dr = Some h' \<longrightarrow>
              h' ! (3 * unat a + k) = h ! (3 * unat a + k) - gij * dr_at dr k \<and>
              h' ! (3 * unat b + k) = h ! (3 * unat b + k) + gij * dr_at dr (k::nat))"
proof -
  have n: "3 * N \<le> 2 ^ 64"
    using assms(3,5) by simp
  obtain e g where run: "get_energy_gradient ndebug ev x grad = Some (e, g)"
    and slots: "\<And>p k. p < N \<Longrightarrow> k < 3 \<Longrightarrow> g ! (3 * p + k) =
      sum_list (map (contribution (interaction ev) x p k) (pairs (ilist ev)))"
    using gradient_valid_slots [OF assms, of ndebug] by blast
  have "(\<Sum>p<N. g ! (3 * p + k)) = 0" if k: "k < 3" for k
  proof -
    have "(\<Sum>p<N. g ! (3 * p + k)) =
        (\<Sum>p<N. sum_list (map (contribution (interaction ev) x p k) (pairs (ilist ev))))"
      using slots k by simp
    also have "\<dots> = sum_list (map (\<lambda>ab. \<Sum>p<N. contribution (interaction ev) x p k ab)
        (pairs (ilist ev)))"
      by (rule sum_sum_list)
    also have "\<dots> = sum_list (map (\<lambda>ab. 0) (pairs (ilist ev)))"
    proof (rule arg_cong [where f = sum_list], rule map_cong [OF refl])
      fix ab assume m: "ab \<in> set (pairs (ilist ev))"
      obtain a b where ab: "ab = (a, b)"
        by (cases ab)
      have "a \<in> set (ilist ev)" "b \<in> set (ilist ev)"
        using set_pairs [of a b "ilist ev"] m ab by simp_all
      then have "unat a < N" "unat b < N"
        using assms(2) valid_offsets(1) by auto
      then show "(\<Sum>p<N. contribution (interaction ev) x p k ab) = 0"
        unfolding ab by (rule contribution_sum)
    qed
    also have "\<dots> = 0"
      by simp
    finally show ?thesis .
  qed
  moreover have "h' ! (3 * unat a + k) = h ! (3 * unat a + k) - gij * dr_at dr k \<and>
      h' ! (3 * unat b + k) = h ! (3 * unat b + k) + gij * dr_at dr k"
    if v: "0 \<le> sint a" "sint a < int N" "0 \<le> sint b" "sint b < int N" and ne: "a \<noteq> b"
      and k: "k < 3" and sc: "scatter h (atom_offset a) (atom_offset b) gij dr = Some h'"
    for a b :: long_int and h h' :: "'a list" and gij dr k
  proof -
    have "unat a \<noteq> unat b"
      using ne by (simp add: word_unat_eq_iff)
    then show ?thesis
      using scatter_valid_nth [OF v n k sc, of "unat a"] scatter_valid_nth [OF v n k sc, of "unat b"]
      by simp
  qed
  ultimately show ?thesis
    using run by blast
qed

theorem gradient_sums_to_zero_witness:
  "get_energy_gradient True
     (new_SimplePairwiseInteractionList
        \<lparr> energy = (\<lambda>r2. r2), energy_gradient = (\<lambda>r2. (r2, 2)) \<rparr> [0, 1, 1, 2] None ())
     [0, 0, 0, 1, 0, 0, 1, 2, 0 :: real] [7, 7, 7, 7, 7, 7, 7, 7, 7]
     = Some (5, [2, 0, 0, - 2, 4, 0, 0, - 4, 0]) \<and>
   (\<Sum>p<3. [2, 0, 0, - 2, 4, 0, 0, - 4, 0 :: real] ! (3 * p + 1)) = 0"
proof -
  let ?law = "\<lparr> energy = (\<lambda>r2. r2), energy_gradient = (\<lambda>r2. (r2 :: real, 2)) \<rparr>"
  let ?ev = "new_SimplePairwiseInteractionList ?law [0, 1, 1, 2] None ()"
  let ?x = "[0, 0, 0, 1, 0, 0, 1, 2, 0 :: real]"
  let ?g0 = "[7, 7, 7, 7, 7, 7, 7, 7, 7 :: real]"
  have run: "get_energy_gradient True ?ev ?x ?g0 = Some (5, [2, 0, 0, - 2, 4, 0, 0, - 4, 0])"
    by (simp add: run_defs)
  have h1: "even (length (ilist ?ev))" by simp
  have h2: "\<forall>a \<in> set (ilist ?ev). 0 \<le> sint a \<and> sint a < int 3" by simp
  have h3: "length ?x = 3 * 3" by simp
  have h4: "length ?g0 = length ?x" by simp
  have h5: "length ?x < 2 ^ 64" by simp
  from gradient_sums_to_zero [OF h1 h2 h3 h4 h5, of True] run
  have "\<forall>k<3. (\<Sum>p<3. [2, 0, 0, - 2, 4, 0, 0, - 4, 0 :: real] ! (3 * p + k)) = 0"
    by simp
  then have "(\<Sum>p<3. [2, 0, 0, - 2, 4, 0, 0, - 4, 0 :: real] ! (3 * p + 1)) = 0"
    by (elim allE [where x = 1]) simp
  with run show ?thesis
    by simp
qed

subsection \<open>C10: the element accesses are in bounds\<close>

text \<open>
  C10. If the list has even length, every index \<open>a\<close> in it has \<open>0 \<le> a < N\<close>, the
  coordinate buffer has length \<open>3N\<close> and the gradient buffer the same length, then
  \<open>get_energy\<close> returns a value and \<open>get_energy_gradient\<close> returns a value: no element
  access fails. With the \<^verbatim>\<open>assert\<close>s compiled in this needs \<open>N < 2\<^sup>6\<^sup>3\<close>, for the cast
  \<^verbatim>\<open>(long int)natoms\<close> to keep the value. A list of odd length makes both operations
  fail, at the read of \<^verbatim>\<open>_ilist[i+1]\<close> past the end if not before.
\<close>

theorem accesses_in_bounds:
  "(even (length (ilist ev)) \<and> (\<forall>a \<in> set (ilist ev). 0 \<le> sint a \<and> sint a < int N) \<and>
    length x = 3 * N \<and> length grad = length x \<longrightarrow>
      (\<exists>e. get_energy ev x = Some e) \<and>
      (\<exists>e g. get_energy_gradient True ev x grad = Some (e, g)) \<and>
      (N < 2 ^ 63 \<longrightarrow> (\<exists>e g. get_energy_gradient False ev x grad = Some (e, g)))) \<and>
   (odd (length (ilist ev)) \<longrightarrow>
      get_energy ev x = None \<and> get_energy_gradient ndebug ev x grad = None)"
proof -
  have odd: "get_energy ev x = None \<and> get_energy_gradient ndebug ev x grad = None"
    if "odd (length (ilist ev))"
    using that
    by (cases ndebug)
      (simp_all add: get_energy_pairs energy_pairs_odd gradient_pairs_odd
        get_energy_gradient_release get_energy_gradient_debug)
  have valid: "(\<exists>e. get_energy ev x = Some e) \<and>
      (\<exists>e g. get_energy_gradient True ev x grad = Some (e, g)) \<and>
      (N < 2 ^ 63 \<longrightarrow> (\<exists>e g. get_energy_gradient False ev x grad = Some (e, g)))"
    if v: "even (length (ilist ev))" "\<forall>a \<in> set (ilist ev). 0 \<le> sint a \<and> sint a < int N"
      "length x = 3 * N" "length grad = length x"
  proof -
    have e: "\<exists>e. get_energy ev x = Some e"
      using energy_pairs_valid [OF v(1,2,3)] by (simp add: get_energy_pairs)
    have g: "\<exists>e g. gradient_pairs (interaction ev) x (ilist ev) 0 (replicate (length x) 0)
        = Some (e, g)"
      using gradient_pairs_valid [OF v(1,2,3)] v(3) by simp
    have r: "\<exists>e g. get_energy_gradient True ev x grad = Some (e, g)"
      using g v(4) by (simp add: get_energy_gradient_matching)
    have d: "\<exists>e g. get_energy_gradient False ev x grad = Some (e, g)" if "N < 2 ^ 63"
      using g v(4) assert_valid [OF v(2) that] v(3)
      by (simp add: get_energy_gradient_matching)
    from e r d show ?thesis by blast
  qed
  from odd valid show ?thesis by blast
qed

theorem accesses_in_bounds_witness:
  "(\<exists>e. get_energy
     (new_SimplePairwiseInteractionList
        \<lparr> energy = (\<lambda>r2. r2), energy_gradient = (\<lambda>r2. (r2, 2)) \<rparr> [0, 1] None ())
     [0, 0, 0, 1, 0, 0 :: real] = Some e) \<and>
   (\<exists>e g. get_energy_gradient False
     (new_SimplePairwiseInteractionList
        \<lparr> energy = (\<lambda>r2. r2), energy_gradient = (\<lambda>r2. (r2, 2)) \<rparr> [0, 1] None ())
     [0, 0, 0, 1, 0, 0 :: real] [7, 7, 7, 7, 7, 7] = Some (e, g)) \<and>
   get_energy
     (new_SimplePairwiseInteractionList
        \<lparr> energy = (\<lambda>r2. r2), energy_gradient = (\<lambda>r2. (r2, 2)) \<rparr> [0, 1, 0] None ())
     [0, 0, 0, 1, 0, 0 :: real] = None"
proof -
  let ?law = "\<lparr> energy = (\<lambda>r2. r2), energy_gradient = (\<lambda>r2. (r2 :: real, 2)) \<rparr>"
  let ?x = "[0, 0, 0, 1, 0, 0 :: real]"
  let ?g = "[7, 7, 7, 7, 7, 7 :: real]"
  have "(\<exists>e. get_energy (new_SimplePairwiseInteractionList ?law [0, 1] None ()) ?x = Some e) \<and>
      (\<exists>e g. get_energy_gradient False (new_SimplePairwiseInteractionList ?law [0, 1] None ())
         ?x ?g = Some (e, g))"
    using accesses_in_bounds [of "new_SimplePairwiseInteractionList ?law [0, 1] None ()" 2 ?x ?g]
    by simp
  moreover have "get_energy (new_SimplePairwiseInteractionList ?law [0, 1, 0] None ()) ?x = None"
    using accesses_in_bounds [of "new_SimplePairwiseInteractionList ?law [0, 1, 0] None ()" 2 ?x ?g]
    by simp
  ultimately show ?thesis by blast
qed

end
